theory Spec2Isabelle
  imports Main
begin

section \<open>The object heap of \<open>src/source.ts\<close>\<close>

text \<open>
  Every class of \<open>source.ts\<close> is a node of one object graph: a producer keeps the list
  of its consumers, and a consumer keeps references to its producers. Object identity
  decides \<open>includes\<close> and \<open>indexOf\<close>, so objects live in an explicit heap and a reference
  is the address of a node. Addresses are handed out in order of construction. The
  consumers of a node are nodes of this file: the classes below are the only
  implementations of the consumer interfaces.
\<close>

type_synonym ref = nat

text \<open>The external collaborators (\<open>Term\<close> of rdf-js, \<open>Algebra\<close> of sparqlalgebrajs) are
  opaque attributes, never inspected by this layer.\<close>

type_synonym rdfjs_term = string
type_synonym algebra = string

text \<open>
  An observer token is any JavaScript value: a node of this heap (the only thing the code
  ever stores in an observer list is \<open>this\<close>) or some object outside of it.
\<close>

datatype jsvalue = NodeObj ref | Token nat

text \<open>
  An ECMAScript \<open>Map\<close> object. Its entries live in the internal slot \<open>[[MapData]]\<close>, in
  insertion order; \<open>m.values()\<close> walks that slot. Like every object it may also carry own
  enumerable string-keyed properties, and these, not the entries, are what
  \<open>Object.values(m)\<close> returns. A map built with \<open>new Map(...)\<close> and \<open>set\<close> has none.
\<close>

datatype 'k JSMap = JSMap (mapData: "('k \<times> ref) list") (ownProps: "(string \<times> ref) list")

definition Map_values :: "'k JSMap \<Rightarrow> ref list" where
  "Map_values m = map snd (mapData m)"

definition Object_values :: "'k JSMap \<Rightarrow> ref list" where
  "Object_values m = map snd (ownProps m)"

text \<open>\<open>VarMapping\<close>: an optional default column and the named columns
  \<open>{name, nameInQuery}\<close>.\<close>

datatype VarMapping =
  VarMapping (default_var: "string option") (named: "(string \<times> string) list")

text \<open>
  One constructor per class, carrying the fields its constructor stores. The four base
  classes are exported and concrete, so they are kinds of their own (their argument is
  the \<open>type\<close> string). The keys of \<open>namedGraphSources\<close> are \<open>RDFTerm\<close> nodes of this
  file, hence references.
\<close>

datatype kind =
    GraphSource string
  | GraphSelector ref rdfjs_term
  | ConstructQuery ref algebra
  | DatasetSource string
  | DatasetBuilder ref "ref JSMap"
  | DatasetMerge "ref list"
  | SparqlEndpoint string
  | DefaultSparqlEndpoint
  | RDFTermSource string
  | RDFTerm rdfjs_term
  | VarFromSelectQuery string algebra ref "string JSMap"
  | AllTermsFromDatasetSource ref
  | TabularSource string
  | SelectQuerySource VarMapping algebra ref "(ref \<times> VarMapping) list"
  | DefaultVarAllTerms ref

datatype family = GraphFamily | DatasetFamily | TermFamily | TabularFamily

fun family_of :: "kind \<Rightarrow> family" where
  "family_of (GraphSource _) = GraphFamily"
| "family_of (GraphSelector _ _) = GraphFamily"
| "family_of (ConstructQuery _ _) = GraphFamily"
| "family_of (DatasetSource _) = DatasetFamily"
| "family_of (DatasetBuilder _ _) = DatasetFamily"
| "family_of (DatasetMerge _) = DatasetFamily"
| "family_of (SparqlEndpoint _) = DatasetFamily"
| "family_of DefaultSparqlEndpoint = DatasetFamily"
| "family_of (RDFTermSource _) = TermFamily"
| "family_of (RDFTerm _) = TermFamily"
| "family_of (VarFromSelectQuery _ _ _ _) = TermFamily"
| "family_of (AllTermsFromDatasetSource _) = TermFamily"
| "family_of (TabularSource _) = TabularFamily"
| "family_of (SelectQuerySource _ _ _ _) = TabularFamily"
| "family_of (DefaultVarAllTerms _) = TabularFamily"

text \<open>
  A node: its class and constructor fields, its \<open>consumers\<close> array and its \<open>observers\<close>
  array. Only \<open>RDFTermSource\<close> and \<open>TabularSource\<close> declare \<open>observers\<close>; for the graph
  and dataset families the field stays empty and no operation reads or writes it.
\<close>

record node =
  kind :: kind
  consumers :: "ref list"
  observers :: "jsvalue list"

type_synonym heap = "node list"

text \<open>
  What a call can do instead of returning: dereference something that is no object, call
  a method the class does not have, or recurse for ever (the fuel of \<open>isObserved\<close> runs
  out).
\<close>

datatype error = InvalidRef | NoSuchMethod | OutOfFuel

definition lookup :: "heap \<Rightarrow> ref \<Rightarrow> error + node" where
  "lookup s a = (if a < length s then Inr (s ! a) else Inl InvalidRef)"

section \<open>Array primitives\<close>

text \<open>\<open>Array.prototype.indexOf\<close>: the first index holding the value, or \<open>-1\<close>.\<close>

fun indexOf_from :: "nat \<Rightarrow> 'a list \<Rightarrow> 'a \<Rightarrow> int" where
  "indexOf_from i [] x = - 1"
| "indexOf_from i (y # ys) x = (if y = x then int i else indexOf_from (Suc i) ys x)"

definition indexOf :: "'a list \<Rightarrow> 'a \<Rightarrow> int" where
  "indexOf xs x = indexOf_from 0 xs x"

text \<open>\<open>xs.splice(index, 1)\<close> for an index in range: the array without that position.\<close>

definition splice1 :: "'a list \<Rightarrow> nat \<Rightarrow> 'a list" where
  "splice1 xs i = take i xs @ drop (Suc i) xs"

text \<open>\<open>xs.includes(x) || xs.push(x)\<close>\<close>

definition includes_or_push :: "'a list \<Rightarrow> 'a \<Rightarrow> 'a list" where
  "includes_or_push xs x = (if x \<in> set xs then xs else xs @ [x])"

text \<open>\<open>const index = xs.indexOf(x); (index > -1) && xs.splice(index, 1)\<close>\<close>

definition indexOf_and_splice :: "'a list \<Rightarrow> 'a \<Rightarrow> 'a list" where
  "indexOf_and_splice xs x =
     (let index = indexOf xs x in if index > - 1 then splice1 xs (nat index) else xs)"

text \<open>\<open>xs.forEach(f)\<close> where \<open>f\<close> changes the heap; an exception ends the loop.\<close>

fun forEach :: "'a list \<Rightarrow> ('a \<Rightarrow> heap \<Rightarrow> error + heap) \<Rightarrow> heap \<Rightarrow> error + heap" where
  "forEach [] f s = Inr s"
| "forEach (x # xs) f s = (case f x s of Inl e \<Rightarrow> Inl e | Inr s' \<Rightarrow> forEach xs f s')"

text \<open>\<open>xs.some(f)\<close>: stops at the first element for which \<open>f\<close> is true.\<close>

fun some_js :: "('a \<Rightarrow> error + bool) \<Rightarrow> 'a list \<Rightarrow> error + bool" where
  "some_js f [] = Inr False"
| "some_js f (c # cs) =
     (case f c of Inl e \<Rightarrow> Inl e | Inr b \<Rightarrow> if b then Inr True else some_js f cs)"

section \<open>The registration ledger\<close>

text \<open>
  \<open>addConsumer\<close> and \<open>removeConsumer\<close> are written out four times in the source
  (\<open>GraphSource\<close>, \<open>DatasetSource\<close>, \<open>RDFTermSource\<close>, \<open>TabularSource\<close>) with the same
  body, so every node has them.
\<close>

definition addConsumer :: "heap \<Rightarrow> ref \<Rightarrow> ref \<Rightarrow> error + heap" where
  "addConsumer s self consumer =
     (case lookup s self of
        Inl e \<Rightarrow> Inl e
      | Inr n \<Rightarrow> Inr (s[self := n\<lparr>consumers := includes_or_push (consumers n) consumer\<rparr>]))"

definition removeConsumer :: "heap \<Rightarrow> ref \<Rightarrow> ref \<Rightarrow> error + heap" where
  "removeConsumer s self consumer =
     (case lookup s self of
        Inl e \<Rightarrow> Inl e
      | Inr n \<Rightarrow> Inr (s[self := n\<lparr>consumers := indexOf_and_splice (consumers n) consumer\<rparr>]))"

text \<open>Only the term and tabular families have the observer methods.\<close>

definition has_observers_field :: "node \<Rightarrow> bool" where
  "has_observers_field n =
     (case family_of (kind n) of
        GraphFamily \<Rightarrow> False | DatasetFamily \<Rightarrow> False
      | TermFamily \<Rightarrow> True | TabularFamily \<Rightarrow> True)"

text \<open>\<open>addObserver(consumer)\<close>:
  \<open>this.observers.includes(this) || this.observers.push(this)\<close>. The argument is not
  used.\<close>

definition addObserver :: "heap \<Rightarrow> ref \<Rightarrow> jsvalue \<Rightarrow> error + heap" where
  "addObserver s self consumer =
     (case lookup s self of
        Inl e \<Rightarrow> Inl e
      | Inr n \<Rightarrow>
          if has_observers_field n
          then Inr (s[self := n\<lparr>observers := includes_or_push (observers n) (NodeObj self)\<rparr>])
          else Inl NoSuchMethod)"

text \<open>\<open>removeObserver(consumer)\<close>:
  \<open>const index = this.observers.indexOf(consumer);
  (index > -1) && this.observers.splice(index, 1)\<close>\<close>

definition removeObserver :: "heap \<Rightarrow> ref \<Rightarrow> jsvalue \<Rightarrow> error + heap" where
  "removeObserver s self consumer =
     (case lookup s self of
        Inl e \<Rightarrow> Inl e
      | Inr n \<Rightarrow>
          if has_observers_field n
          then Inr (s[self := n\<lparr>observers := indexOf_and_splice (observers n) consumer\<rparr>])
          else Inl NoSuchMethod)"

text \<open>\<open>hasObserver()\<close>: \<open>this.observers.length > 0\<close>\<close>

definition hasObserver :: "heap \<Rightarrow> ref \<Rightarrow> error + bool" where
  "hasObserver s self =
     (case lookup s self of
        Inl e \<Rightarrow> Inl e
      | Inr n \<Rightarrow> if has_observers_field n then Inr (length (observers n) > 0)
                else Inl NoSuchMethod)"

section \<open>Demand propagation\<close>

text \<open>
  \<open>isObserved()\<close> calls itself through the consumers, and nothing in the source bounds
  the recursion, so the model takes fuel: one unit per nested call, \<open>Inl OutOfFuel\<close>
  when it is used up. A call returns when some amount of fuel gives \<open>Inr\<close>.

  \<open>GraphSource\<close>, \<open>DatasetSource\<close>: \<open>this.consumers.some(c => c.isObserved())\<close>.
  \<open>RDFTermSource\<close>, \<open>TabularSource\<close>:
  \<open>this.hasObserver() || this.consumers.some(c => c.isObserved())\<close>.
\<close>

fun isObserved :: "nat \<Rightarrow> heap \<Rightarrow> ref \<Rightarrow> error + bool" where
  "isObserved 0 s self = Inl OutOfFuel"
| "isObserved (Suc fuel) s self =
     (case lookup s self of
        Inl e \<Rightarrow> Inl e
      | Inr n \<Rightarrow>
          (case family_of (kind n) of
             GraphFamily \<Rightarrow> some_js (\<lambda>c. isObserved fuel s c) (consumers n)
           | DatasetFamily \<Rightarrow> some_js (\<lambda>c. isObserved fuel s c) (consumers n)
           | TermFamily \<Rightarrow>
               if length (observers n) > 0 then Inr True
               else some_js (\<lambda>c. isObserved fuel s c) (consumers n)
           | TabularFamily \<Rightarrow>
               if length (observers n) > 0 then Inr True
               else some_js (\<lambda>c. isObserved fuel s c) (consumers n)))"

section \<open>Constructors and \<open>detache\<close>\<close>

text \<open>
  \<open>new C(...)\<close> creates the object with empty \<open>consumers\<close> and \<open>observers\<close> (the field
  initialisers of the base class), stores the arguments, and then runs the registrations
  of the constructor body. The arguments are objects that exist already, that is,
  addresses below \<open>length s\<close>.
\<close>

definition alloc :: "heap \<Rightarrow> kind \<Rightarrow> ref \<times> heap" where
  "alloc s k = (length s, s @ [\<lparr>kind = k, consumers = [], observers = []\<rparr>])"

definition constructed :: "ref \<Rightarrow> error + heap \<Rightarrow> error + (ref \<times> heap)" where
  "constructed self r = (case r of Inl e \<Rightarrow> Inl e | Inr s \<Rightarrow> Inr (self, s))"

fun construct :: "heap \<Rightarrow> kind \<Rightarrow> error + (ref \<times> heap)" where
  "construct s (GraphSelector datasetSource graphName) =
     (let (self, s1) = alloc s (GraphSelector datasetSource graphName)
      in constructed self (addConsumer s1 datasetSource self))"
| "construct s (ConstructQuery datasetSource construct_op) =
     (let (self, s1) = alloc s (ConstructQuery datasetSource construct_op)
      in constructed self (addConsumer s1 datasetSource self))"
| "construct s (DatasetBuilder defaultGraphSource namedGraphSources) =
     (let (self, s1) = alloc s (DatasetBuilder defaultGraphSource namedGraphSources)
      in constructed self
           (case addConsumer s1 defaultGraphSource self of
              Inl e \<Rightarrow> Inl e
            | Inr s2 \<Rightarrow>
                forEach (Object_values namedGraphSources)
                  (\<lambda>namedGraphSource h. addConsumer h namedGraphSource self) s2))"
| "construct s (DatasetMerge inputDatasetSources) =
     (let (self, s1) = alloc s (DatasetMerge inputDatasetSources)
      in constructed self
           (forEach inputDatasetSources (\<lambda>inputSource h. addConsumer h inputSource self) s1))"
| "construct s (VarFromSelectQuery varName selectQuery datasetSource params) =
     (let (self, s1) = alloc s (VarFromSelectQuery varName selectQuery datasetSource params)
      in constructed self
           (case addConsumer s1 datasetSource self of
              Inl e \<Rightarrow> Inl e
            | Inr s2 \<Rightarrow>
                forEach (Map_values params) (\<lambda>source h. addConsumer h source self) s2))"
| "construct s (AllTermsFromDatasetSource datasetSource) =
     (let (self, s1) = alloc s (AllTermsFromDatasetSource datasetSource)
      in constructed self (addConsumer s1 datasetSource self))"
| "construct s (SelectQuerySource output selectQuery datasetSource bindingSources) =
     (let (self, s1) = alloc s (SelectQuerySource output selectQuery datasetSource bindingSources)
      in constructed self
           (case addConsumer s1 datasetSource self of
              Inl e \<Rightarrow> Inl e
            | Inr s2 \<Rightarrow>
                forEach bindingSources (\<lambda>b h. addConsumer h (fst b) self) s2))"
| "construct s (DefaultVarAllTerms datasetSource) =
     (let (self, s1) = alloc s (DefaultVarAllTerms datasetSource)
      in constructed self (addConsumer s1 datasetSource self))"
| "construct s leaf = Inr (alloc s leaf)"

text \<open>
  \<open>detache()\<close>, class by class. The leaves and the base classes have no such method.
\<close>

fun detache_kind :: "kind \<Rightarrow> heap \<Rightarrow> ref \<Rightarrow> error + heap" where
  "detache_kind (GraphSelector datasetSource _) s self = removeConsumer s datasetSource self"
| "detache_kind (ConstructQuery datasetSource _) s self = removeConsumer s datasetSource self"
| "detache_kind (DatasetBuilder defaultGraphSource namedGraphSources) s self =
     (case removeConsumer s defaultGraphSource self of
        Inl e \<Rightarrow> Inl e
      | Inr s1 \<Rightarrow>
          forEach (Object_values namedGraphSources)
            (\<lambda>namedGraphSource h. removeConsumer h namedGraphSource self) s1)"
| "detache_kind (DatasetMerge inputDatasetSources) s self =
     forEach inputDatasetSources (\<lambda>inputSource h. removeConsumer h inputSource self) s"
| "detache_kind (VarFromSelectQuery _ _ datasetSource _) s self =
     removeConsumer s datasetSource self"
| "detache_kind (AllTermsFromDatasetSource datasetSource) s self =
     removeConsumer s datasetSource self"
| "detache_kind (SelectQuerySource _ _ datasetSource _) s self =
     removeConsumer s datasetSource self"
| "detache_kind (DefaultVarAllTerms datasetSource) s self = removeConsumer s datasetSource self"
| "detache_kind _ s self = Inl NoSuchMethod"

definition detache :: "heap \<Rightarrow> ref \<Rightarrow> error + heap" where
  "detache s self =
     (case lookup s self of Inl e \<Rightarrow> Inl e | Inr n \<Rightarrow> detache_kind (kind n) s self)"

text \<open>
  \<open>getDatasetSource()\<close> exists on the tabular family: \<open>TabularSource\<close> returns
  \<open>undefined\<close> (here \<open>None\<close>), \<open>SelectQuerySource\<close> and \<open>DefaultVarAllTerms\<close> override
  it with \<open>return this.datasetSource\<close>.
\<close>

fun getDatasetSource_kind :: "kind \<Rightarrow> error + ref option" where
  "getDatasetSource_kind (TabularSource _) = Inr None"
| "getDatasetSource_kind (SelectQuerySource _ _ datasetSource _) = Inr (Some datasetSource)"
| "getDatasetSource_kind (DefaultVarAllTerms datasetSource) = Inr (Some datasetSource)"
| "getDatasetSource_kind _ = Inl NoSuchMethod"

definition getDatasetSource :: "heap \<Rightarrow> ref \<Rightarrow> error + ref option" where
  "getDatasetSource s self =
     (case lookup s self of Inl e \<Rightarrow> Inl e | Inr n \<Rightarrow> getDatasetSource_kind (kind n))"

section \<open>Histories of calls\<close>

text \<open>A sequence of \<open>addObserver\<close> and \<open>removeObserver\<close> calls on one node, with any
  tokens.\<close>

datatype observer_call = AddObserver jsvalue | RemoveObserver jsvalue

fun observer_calls :: "heap \<Rightarrow> ref \<Rightarrow> observer_call list \<Rightarrow> error + heap" where
  "observer_calls s self [] = Inr s"
| "observer_calls s self (AddObserver token # calls) =
     (case addObserver s self token of Inl e \<Rightarrow> Inl e | Inr s' \<Rightarrow> observer_calls s' self calls)"
| "observer_calls s self (RemoveObserver token # calls) =
     (case removeObserver s self token of Inl e \<Rightarrow> Inl e | Inr s' \<Rightarrow> observer_calls s' self calls)"

text \<open>
  The heaps a program can build: it starts with no object and calls constructors and
  the public methods, in any order and with any arguments.
\<close>

inductive reachable :: "heap \<Rightarrow> bool" where
  reachable_empty: "reachable []"
| reachable_construct: "reachable s \<Longrightarrow> construct s k = Inr (a, s') \<Longrightarrow> reachable s'"
| reachable_addConsumer: "reachable s \<Longrightarrow> addConsumer s p c = Inr s' \<Longrightarrow> reachable s'"
| reachable_removeConsumer: "reachable s \<Longrightarrow> removeConsumer s p c = Inr s' \<Longrightarrow> reachable s'"
| reachable_addObserver: "reachable s \<Longrightarrow> addObserver s p t = Inr s' \<Longrightarrow> reachable s'"
| reachable_removeObserver: "reachable s \<Longrightarrow> removeObserver s p t = Inr s' \<Longrightarrow> reachable s'"
| reachable_detache: "reachable s \<Longrightarrow> detache s p = Inr s' \<Longrightarrow> reachable s'"

text \<open>
  \<open>evolves s s'\<close>: the program gets from heap \<open>s\<close> to heap \<open>s'\<close> by calling
  constructors and public methods. No call changes the class or the constructor fields
  of an existing object.
\<close>

inductive evolves :: "heap \<Rightarrow> heap \<Rightarrow> bool" where
  evolves_refl: "evolves s s"
| evolves_construct: "evolves s s1 \<Longrightarrow> construct s1 k = Inr (a, s2) \<Longrightarrow> evolves s s2"
| evolves_addConsumer: "evolves s s1 \<Longrightarrow> addConsumer s1 p c = Inr s2 \<Longrightarrow> evolves s s2"
| evolves_removeConsumer: "evolves s s1 \<Longrightarrow> removeConsumer s1 p c = Inr s2 \<Longrightarrow> evolves s s2"
| evolves_addObserver: "evolves s s1 \<Longrightarrow> addObserver s1 p t = Inr s2 \<Longrightarrow> evolves s s2"
| evolves_removeObserver: "evolves s s1 \<Longrightarrow> removeObserver s1 p t = Inr s2 \<Longrightarrow> evolves s s2"
| evolves_detache: "evolves s s1 \<Longrightarrow> detache s1 p = Inr s2 \<Longrightarrow> evolves s s2"

text \<open>The objects of \<open>s\<close> are still there in \<open>s'\<close>, each with its class and its
  constructor fields.\<close>

definition keeps_kinds :: "heap \<Rightarrow> heap \<Rightarrow> bool" where
  "keeps_kinds s s' = (length s \<le> length s' \<and> (\<forall>a < length s. kind (s' ! a) = kind (s ! a)))"

text \<open>
  The ledger invariant: no consumer is listed twice, and an observer list is empty or
  holds the node itself, once.
\<close>

definition node_inv :: "ref \<Rightarrow> node \<Rightarrow> bool" where
  "node_inv a n = (distinct (consumers n) \<and> (observers n = [] \<or> observers n = [NodeObj a]))"

definition ledger_inv :: "heap \<Rightarrow> bool" where
  "ledger_inv s = (\<forall>a < length s. node_inv a (s ! a))"

text \<open>What registration leaves alone: the number of objects, their classes and fields,
  and their observers.\<close>

definition same_frame :: "heap \<Rightarrow> heap \<Rightarrow> bool" where
  "same_frame s s' =
     (length s' = length s
      \<and> (\<forall>a < length s. kind (s' ! a) = kind (s ! a) \<and> observers (s' ! a) = observers (s ! a)))"

text \<open>The producers a constructor registers the new node with, in the order of its
  body, and the producers \<open>detache()\<close> unregisters it from (\<open>None\<close>: no such method).\<close>

fun registered_with :: "kind \<Rightarrow> ref list" where
  "registered_with (GraphSelector datasetSource _) = [datasetSource]"
| "registered_with (ConstructQuery datasetSource _) = [datasetSource]"
| "registered_with (DatasetBuilder defaultGraphSource namedGraphSources) =
     defaultGraphSource # Object_values namedGraphSources"
| "registered_with (DatasetMerge inputDatasetSources) = inputDatasetSources"
| "registered_with (VarFromSelectQuery _ _ datasetSource params) =
     datasetSource # Map_values params"
| "registered_with (AllTermsFromDatasetSource datasetSource) = [datasetSource]"
| "registered_with (SelectQuerySource _ _ datasetSource bindingSources) =
     datasetSource # map fst bindingSources"
| "registered_with (DefaultVarAllTerms datasetSource) = [datasetSource]"
| "registered_with _ = []"

fun released_by_detache :: "kind \<Rightarrow> ref list option" where
  "released_by_detache (GraphSelector datasetSource _) = Some [datasetSource]"
| "released_by_detache (ConstructQuery datasetSource _) = Some [datasetSource]"
| "released_by_detache (DatasetBuilder defaultGraphSource namedGraphSources) =
     Some (defaultGraphSource # Object_values namedGraphSources)"
| "released_by_detache (DatasetMerge inputDatasetSources) = Some inputDatasetSources"
| "released_by_detache (VarFromSelectQuery _ _ datasetSource _) = Some [datasetSource]"
| "released_by_detache (AllTermsFromDatasetSource datasetSource) = Some [datasetSource]"
| "released_by_detache (SelectQuerySource _ _ datasetSource _) = Some [datasetSource]"
| "released_by_detache (DefaultVarAllTerms datasetSource) = Some [datasetSource]"
| "released_by_detache _ = None"

text \<open>Every producer a node was registered with at construction is an object of the
  heap.\<close>

definition producers_exist :: "heap \<Rightarrow> bool" where
  "producers_exist s =
     (\<forall>a < length s. \<forall>p \<in> set (registered_with (kind (s ! a))). p < length s)"

text \<open>\<open>c\<close> is not registered with the existing producer \<open>p\<close>.\<close>

definition gone_from :: "ref \<Rightarrow> ref \<Rightarrow> heap \<Rightarrow> bool" where
  "gone_from c p h = (p < length h \<and> c \<notin> set (consumers (h ! p)))"

section \<open>The consumer graph\<close>

text \<open>
  The consumer edges of a heap, from a producer to each of its consumers; a heap is
  closed when every listed consumer is an object of the heap (in JavaScript a reference
  always denotes an object); a node is observed directly when its class has an observer
  list and the list is not empty, which is what \<open>hasObserver()\<close> tests.
\<close>

definition consumer_edges :: "heap \<Rightarrow> (ref \<times> ref) set" where
  "consumer_edges s = {(a, c). a < length s \<and> c \<in> set (consumers (s ! a))}"

definition closed_heap :: "heap \<Rightarrow> bool" where
  "closed_heap s = (\<forall>a < length s. \<forall>c \<in> set (consumers (s ! a)). c < length s)"

definition observed_directly :: "heap \<Rightarrow> ref \<Rightarrow> bool" where
  "observed_directly s a =
     (a < length s \<and> has_observers_field (s ! a) \<and> length (observers (s ! a)) > 0)"

section \<open>Helper lemmas on the array primitives\<close>

lemma indexOf_from_absent: "x \<notin> set xs \<Longrightarrow> indexOf_from i xs x = - 1"
  by (induction xs arbitrary: i) auto

lemma indexOf_from_present:
  "x \<in> set xs \<Longrightarrow> int i \<le> indexOf_from i xs x \<and> indexOf_from i xs x < int (i + length xs)"
proof (induction xs arbitrary: i)
  case Nil
  then show ?case by simp
next
  case (Cons y ys)
  show ?case
  proof (cases "y = x")
    case True
    then show ?thesis by simp
  next
    case False
    with Cons.prems have "x \<in> set ys" by simp
    from Cons.IH [OF this, of "Suc i"] False show ?thesis by simp
  qed
qed

lemma splice1_indexOf_from:
  "x \<in> set xs \<Longrightarrow> splice1 xs (nat (indexOf_from i xs x - int i)) = remove1 x xs"
proof (induction xs arbitrary: i)
  case Nil
  then show ?case by simp
next
  case (Cons y ys)
  show ?case
  proof (cases "y = x")
    case True
    then show ?thesis by (simp add: splice1_def)
  next
    case False
    with Cons.prems have mem: "x \<in> set ys" by simp
    from indexOf_from_present [OF mem, of "Suc i"]
    have "nat (indexOf_from (Suc i) ys x - int i) = Suc (nat (indexOf_from (Suc i) ys x - int (Suc i)))"
      by linarith
    with Cons.IH [OF mem, of "Suc i"] False show ?thesis
      by (simp add: splice1_def)
  qed
qed

lemma indexOf_and_splice_remove1: "indexOf_and_splice xs x = remove1 x xs"
proof (cases "x \<in> set xs")
  case True
  from indexOf_from_present [OF True, of 0] splice1_indexOf_from [OF True, of 0]
  show ?thesis by (simp add: indexOf_and_splice_def indexOf_def Let_def)
next
  case False
  then show ?thesis
    by (simp add: indexOf_and_splice_def indexOf_def indexOf_from_absent remove1_idem)
qed

lemma includes_or_push_distinct: "distinct xs \<Longrightarrow> distinct (includes_or_push xs x)"
  by (simp add: includes_or_push_def)

section \<open>Helper lemmas on the heap operations\<close>

lemma same_frame_refl: "same_frame s s"
  by (simp add: same_frame_def)

lemma same_frame_trans: "same_frame s s1 \<Longrightarrow> same_frame s1 s2 \<Longrightarrow> same_frame s s2"
  by (simp add: same_frame_def)

lemma addConsumer_Inr:
  "addConsumer s p c = Inr s' \<Longrightarrow>
     p < length s \<and> s' = s[p := (s ! p)\<lparr>consumers := includes_or_push (consumers (s ! p)) c\<rparr>]"
  by (auto simp: addConsumer_def lookup_def split: if_splits)

lemma removeConsumer_Inr:
  "removeConsumer s p c = Inr s' \<Longrightarrow>
     p < length s \<and> s' = s[p := (s ! p)\<lparr>consumers := remove1 c (consumers (s ! p))\<rparr>]"
  by (auto simp: removeConsumer_def lookup_def indexOf_and_splice_remove1 split: if_splits)

lemma addConsumer_frame: "addConsumer s p c = Inr s' \<Longrightarrow> same_frame s s'"
  by (auto dest!: addConsumer_Inr simp: same_frame_def nth_list_update)

lemma removeConsumer_frame: "removeConsumer s p c = Inr s' \<Longrightarrow> same_frame s s'"
  by (auto dest!: removeConsumer_Inr simp: same_frame_def nth_list_update)

lemma forEach_preserves:
  assumes step: "\<And>x h h'. P h \<Longrightarrow> f x h = Inr h' \<Longrightarrow> P h'"
  shows "P s \<Longrightarrow> forEach xs f s = Inr s' \<Longrightarrow> P s'"
proof (induction xs arbitrary: s)
  case Nil
  then show ?case by simp
next
  case (Cons x xs)
  from Cons.prems(2) obtain s1 where s1: "f x s = Inr s1" and rest: "forEach xs f s1 = Inr s'"
    by (auto split: sum.splits)
  from step [OF Cons.prems(1) s1] have "P s1" .
  from Cons.IH [OF this rest] show ?case .
qed

lemma forEach_addConsumer_frame:
  assumes "forEach xs (\<lambda>x h. addConsumer h (g x) c) s = Inr s'"
  shows "same_frame s s'"
proof (rule forEach_preserves [where P = "same_frame s" and f = "\<lambda>x h. addConsumer h (g x) c"])
  show "same_frame s s" by (rule same_frame_refl)
  show "forEach xs (\<lambda>x h. addConsumer h (g x) c) s = Inr s'" by (rule assms)
next
  fix x h h'
  assume "same_frame s h" and "addConsumer h (g x) c = Inr h'"
  then show "same_frame s h'"
    using addConsumer_frame same_frame_trans by blast
qed

lemma forEach_removeConsumer_frame:
  assumes "forEach xs (\<lambda>x h. removeConsumer h (g x) c) s = Inr s'"
  shows "same_frame s s'"
proof (rule forEach_preserves [where P = "same_frame s" and f = "\<lambda>x h. removeConsumer h (g x) c"])
  show "same_frame s s" by (rule same_frame_refl)
  show "forEach xs (\<lambda>x h. removeConsumer h (g x) c) s = Inr s'" by (rule assms)
next
  fix x h h'
  assume "same_frame s h" and "removeConsumer h (g x) c = Inr h'"
  then show "same_frame s h'"
    using removeConsumer_frame same_frame_trans by blast
qed

lemma ledger_inv_update:
  "ledger_inv s \<Longrightarrow> node_inv p n \<Longrightarrow> ledger_inv (s[p := n])"
proof (cases "p < length s")
  case True
  assume "ledger_inv s" "node_inv p n"
  with True show ?thesis by (auto simp: ledger_inv_def nth_list_update)
next
  case False
  assume "ledger_inv s"
  with False show ?thesis by (simp add: list_update_beyond)
qed

lemma addConsumer_inv: "ledger_inv s \<Longrightarrow> addConsumer s p c = Inr s' \<Longrightarrow> ledger_inv s'"
proof -
  assume inv: "ledger_inv s" and call: "addConsumer s p c = Inr s'"
  from addConsumer_Inr [OF call]
  have p: "p < length s"
    and s': "s' = s[p := (s ! p)\<lparr>consumers := includes_or_push (consumers (s ! p)) c\<rparr>]"
    by simp_all
  from inv p have "node_inv p (s ! p)" by (simp add: ledger_inv_def)
  then have "node_inv p ((s ! p)\<lparr>consumers := includes_or_push (consumers (s ! p)) c\<rparr>)"
    by (simp add: node_inv_def includes_or_push_distinct)
  with inv s' show ?thesis by (simp add: ledger_inv_update)
qed

lemma removeConsumer_inv: "ledger_inv s \<Longrightarrow> removeConsumer s p c = Inr s' \<Longrightarrow> ledger_inv s'"
proof -
  assume inv: "ledger_inv s" and call: "removeConsumer s p c = Inr s'"
  from removeConsumer_Inr [OF call]
  have p: "p < length s"
    and s': "s' = s[p := (s ! p)\<lparr>consumers := remove1 c (consumers (s ! p))\<rparr>]"
    by simp_all
  from inv p have "node_inv p (s ! p)" by (simp add: ledger_inv_def)
  then have "node_inv p ((s ! p)\<lparr>consumers := remove1 c (consumers (s ! p))\<rparr>)"
    by (simp add: node_inv_def)
  with inv s' show ?thesis by (simp add: ledger_inv_update)
qed

lemma forEach_addConsumer_inv:
  "ledger_inv s \<Longrightarrow> forEach xs (\<lambda>x h. addConsumer h (g x) c) s = Inr s' \<Longrightarrow> ledger_inv s'"
  by (rule forEach_preserves [where P = ledger_inv and f = "\<lambda>x h. addConsumer h (g x) c"])
     (auto intro: addConsumer_inv)

lemma forEach_removeConsumer_inv:
  "ledger_inv s \<Longrightarrow> forEach xs (\<lambda>x h. removeConsumer h (g x) c) s = Inr s' \<Longrightarrow> ledger_inv s'"
  by (rule forEach_preserves [where P = ledger_inv and f = "\<lambda>x h. removeConsumer h (g x) c"])
     (auto intro: removeConsumer_inv)

lemma alloc_inv: "ledger_inv s \<Longrightarrow> ledger_inv (snd (alloc s k))"
  by (auto simp: ledger_inv_def node_inv_def alloc_def nth_append less_Suc_eq)

lemma addObserver_Inr:
  "addObserver s p t = Inr s' \<Longrightarrow>
     p < length s \<and> has_observers_field (s ! p)
     \<and> s' = s[p := (s ! p)\<lparr>observers := includes_or_push (observers (s ! p)) (NodeObj p)\<rparr>]"
  by (auto simp: addObserver_def lookup_def split: if_splits)

lemma removeObserver_Inr:
  "removeObserver s p t = Inr s' \<Longrightarrow>
     p < length s \<and> has_observers_field (s ! p)
     \<and> s' = s[p := (s ! p)\<lparr>observers := remove1 t (observers (s ! p))\<rparr>]"
  by (auto simp: removeObserver_def lookup_def indexOf_and_splice_remove1 split: if_splits)

lemma addObserver_inv: "ledger_inv s \<Longrightarrow> addObserver s p t = Inr s' \<Longrightarrow> ledger_inv s'"
proof -
  assume inv: "ledger_inv s" and call: "addObserver s p t = Inr s'"
  from addObserver_Inr [OF call]
  have p: "p < length s"
    and s': "s' = s[p := (s ! p)\<lparr>observers := includes_or_push (observers (s ! p)) (NodeObj p)\<rparr>]"
    by simp_all
  from inv p have "node_inv p (s ! p)" by (simp add: ledger_inv_def)
  then have "node_inv p ((s ! p)\<lparr>observers := includes_or_push (observers (s ! p)) (NodeObj p)\<rparr>)"
    by (auto simp: node_inv_def includes_or_push_def)
  with inv s' show ?thesis by (simp add: ledger_inv_update)
qed

lemma removeObserver_inv: "ledger_inv s \<Longrightarrow> removeObserver s p t = Inr s' \<Longrightarrow> ledger_inv s'"
proof -
  assume inv: "ledger_inv s" and call: "removeObserver s p t = Inr s'"
  from removeObserver_Inr [OF call]
  have p: "p < length s"
    and s': "s' = s[p := (s ! p)\<lparr>observers := remove1 t (observers (s ! p))\<rparr>]"
    by simp_all
  from inv p have "node_inv p (s ! p)" by (simp add: ledger_inv_def)
  then have "node_inv p ((s ! p)\<lparr>observers := remove1 t (observers (s ! p))\<rparr>)"
    by (auto simp: node_inv_def split: if_splits)
  with inv s' show ?thesis by (simp add: ledger_inv_update)
qed

lemma detache_inv: "ledger_inv s \<Longrightarrow> detache s a = Inr s' \<Longrightarrow> ledger_inv s'"
proof -
  assume inv: "ledger_inv s" and call: "detache s a = Inr s'"
  from call have dk: "detache_kind (kind (s ! a)) s a = Inr s'"
    by (auto simp: detache_def lookup_def split: if_splits)
  show ?thesis
  proof (cases "kind (s ! a)")
    case (DatasetBuilder d m)
    with dk obtain s1 where s1: "removeConsumer s d a = Inr s1"
      and rest: "forEach (Object_values m) (\<lambda>g h. removeConsumer h g a) s1 = Inr s'"
      by (auto split: sum.splits)
    from removeConsumer_inv [OF inv s1] have "ledger_inv s1" .
    from forEach_removeConsumer_inv [where g = "\<lambda>x. x", OF this rest] show ?thesis .
  next
    case (DatasetMerge ins)
    with dk have "forEach ins (\<lambda>i h. removeConsumer h i a) s = Inr s'" by simp
    from forEach_removeConsumer_inv [where g = "\<lambda>x. x", OF inv this] show ?thesis .
  qed (use dk in \<open>auto intro: removeConsumer_inv [OF inv]\<close>)
qed

lemma construct_inv: "ledger_inv s \<Longrightarrow> construct s k = Inr (a, s') \<Longrightarrow> ledger_inv s'"
proof -
  assume inv: "ledger_inv s" and call: "construct s k = Inr (a, s')"
  let ?s1 = "s @ [\<lparr>kind = k, consumers = [], observers = []\<rparr>]"
  from alloc_inv [OF inv, of k] have inv1: "ledger_inv ?s1" by (simp add: alloc_def)
  have single: "addConsumer ?s1 d (length s) = Inr s' \<Longrightarrow> ledger_inv s'" for d
    by (rule addConsumer_inv [OF inv1])
  have leaf: "s' = ?s1 \<Longrightarrow> ledger_inv s'"
    using inv1 by simp
  show ?thesis
  proof (cases k)
    case (DatasetBuilder d m)
    with call obtain s2 where s2: "addConsumer ?s1 d (length s) = Inr s2"
      and rest: "forEach (Object_values m) (\<lambda>g h. addConsumer h g (length s)) s2 = Inr s'"
      by (auto simp: alloc_def constructed_def split: sum.splits)
    from addConsumer_inv [OF inv1 s2] have "ledger_inv s2" .
    from forEach_addConsumer_inv [where g = "\<lambda>x. x", OF this rest] show ?thesis .
  next
    case (DatasetMerge ins)
    with call have "forEach ins (\<lambda>i h. addConsumer h i (length s)) ?s1 = Inr s'"
      by (auto simp: alloc_def constructed_def split: sum.splits)
    from forEach_addConsumer_inv [where g = "\<lambda>x. x", OF inv1 this] show ?thesis .
  next
    case (VarFromSelectQuery v q d m)
    with call obtain s2 where s2: "addConsumer ?s1 d (length s) = Inr s2"
      and rest: "forEach (Map_values m) (\<lambda>g h. addConsumer h g (length s)) s2 = Inr s'"
      by (auto simp: alloc_def constructed_def split: sum.splits)
    from addConsumer_inv [OF inv1 s2] have "ledger_inv s2" .
    from forEach_addConsumer_inv [where g = "\<lambda>x. x", OF this rest] show ?thesis .
  next
    case (SelectQuerySource out q d bs)
    with call obtain s2 where s2: "addConsumer ?s1 d (length s) = Inr s2"
      and rest: "forEach bs (\<lambda>b h. addConsumer h (fst b) (length s)) s2 = Inr s'"
      by (auto simp: alloc_def constructed_def split: sum.splits)
    from addConsumer_inv [OF inv1 s2] have "ledger_inv s2" .
    from forEach_addConsumer_inv [where g = fst, OF this rest] show ?thesis .
  qed (use call single leaf in \<open>auto simp: alloc_def constructed_def split: sum.splits\<close>)
qed

lemma reachable_ledger_inv: "reachable s \<Longrightarrow> ledger_inv s"
proof (induction rule: reachable.induct)
  case reachable_empty
  show ?case by (simp add: ledger_inv_def)
qed (auto intro: construct_inv addConsumer_inv removeConsumer_inv addObserver_inv
       removeObserver_inv detache_inv)

lemma forEach_map: "forEach (map g xs) f s = forEach xs (\<lambda>x. f (g x)) s"
  by (induction xs arbitrary: s) (auto split: sum.splits)

lemma construct_registered_with:
  "construct s k =
     constructed (length s)
       (forEach (registered_with k) (\<lambda>p h. addConsumer h p (length s))
          (s @ [\<lparr>kind = k, consumers = [], observers = []\<rparr>]))"
  by (cases k) (simp_all add: alloc_def constructed_def forEach_map split: sum.splits)

lemma detache_kind_released:
  "detache_kind k s a =
     (case released_by_detache k of
        None \<Rightarrow> Inl NoSuchMethod
      | Some ps \<Rightarrow> forEach ps (\<lambda>p h. removeConsumer h p a) s)"
  by (cases k) (simp_all split: sum.splits)

lemma construct_Inr:
  assumes "construct s k = Inr (a, s')"
  shows "a = length s" and "length s' = Suc (length s)" and "kind (s' ! a) = k"
    and "observers (s' ! a) = []" and "\<forall>b < length s. kind (s' ! b) = kind (s ! b)"
proof -
  let ?s1 = "s @ [\<lparr>kind = k, consumers = [], observers = []\<rparr>]"
  from assms have a: "a = length s"
    and run: "forEach (registered_with k) (\<lambda>p h. addConsumer h p (length s)) ?s1 = Inr s'"
    by (auto simp: construct_registered_with constructed_def split: sum.splits)
  from forEach_addConsumer_frame [where g = "\<lambda>x. x", OF run]
  have fr: "same_frame ?s1 s'" .
  show "a = length s" by (rule a)
  from fr show "length s' = Suc (length s)" by (simp add: same_frame_def)
  from fr a show "kind (s' ! a) = k" by (simp add: same_frame_def)
  from fr a show "observers (s' ! a) = []" by (simp add: same_frame_def)
  from fr show "\<forall>b < length s. kind (s' ! b) = kind (s ! b)"
    by (simp add: same_frame_def nth_append)
qed

lemma detache_frame: "detache s a = Inr s' \<Longrightarrow> same_frame s s'"
  by (auto simp: detache_def lookup_def detache_kind_released
        split: if_splits option.splits
        intro: forEach_removeConsumer_frame [where g = "\<lambda>x. x"])

lemma removeConsumer_absent:
  "p < length s \<Longrightarrow> c \<notin> set (consumers (s ! p)) \<Longrightarrow> removeConsumer s p c = Inr s"
  by (simp add: removeConsumer_def lookup_def indexOf_and_splice_remove1 remove1_idem)

lemma forEach_removeConsumer_absent:
  "\<forall>p \<in> set ps. p < length s \<and> c \<notin> set (consumers (s ! p)) \<Longrightarrow>
     forEach ps (\<lambda>p h. removeConsumer h p c) s = Inr s"
  by (induction ps) (simp_all add: removeConsumer_absent)

lemma removeConsumer_gone:
  "ledger_inv s \<Longrightarrow> removeConsumer s p c = Inr s' \<Longrightarrow> gone_from c p s'"
  by (auto dest!: removeConsumer_Inr simp: gone_from_def ledger_inv_def node_inv_def)

lemma removeConsumer_keeps_gone:
  "gone_from c p s \<Longrightarrow> removeConsumer s q c = Inr s' \<Longrightarrow> gone_from c p s'"
  by (auto dest!: removeConsumer_Inr simp: gone_from_def nth_list_update
        split: if_splits dest: notin_set_remove1)

lemma forEach_removeConsumer_keeps_gone:
  "gone_from c p s \<Longrightarrow> forEach ps (\<lambda>q h. removeConsumer h q c) s = Inr s' \<Longrightarrow> gone_from c p s'"
  by (rule forEach_preserves [where P = "gone_from c p" and f = "\<lambda>q h. removeConsumer h q c"])
     (auto intro: removeConsumer_keeps_gone)

lemma forEach_removeConsumer_gone:
  "ledger_inv s \<Longrightarrow> forEach ps (\<lambda>q h. removeConsumer h q c) s = Inr s' \<Longrightarrow>
     \<forall>p \<in> set ps. gone_from c p s'"
proof (induction ps arbitrary: s)
  case Nil
  then show ?case by simp
next
  case (Cons q qs)
  from Cons.prems(2) obtain s1 where s1: "removeConsumer s q c = Inr s1"
    and rest: "forEach qs (\<lambda>q h. removeConsumer h q c) s1 = Inr s'"
    by (auto split: sum.splits)
  from removeConsumer_inv [OF Cons.prems(1) s1] have inv1: "ledger_inv s1" .
  from removeConsumer_gone [OF Cons.prems(1) s1] have "gone_from c q s1" .
  from forEach_removeConsumer_keeps_gone [OF this rest] have "gone_from c q s'" .
  with Cons.IH [OF inv1 rest] show ?case by simp
qed

lemma detache_twice:
  assumes inv: "ledger_inv s" and first: "detache s a = Inr s1"
  shows "detache s1 a = Inr s1"
proof -
  from first have a: "a < length s" and dk: "detache_kind (kind (s ! a)) s a = Inr s1"
    by (auto simp: detache_def lookup_def split: if_splits)
  from detache_frame [OF first] a
  have len: "a < length s1" and k: "kind (s1 ! a) = kind (s ! a)"
    by (simp_all add: same_frame_def)
  from dk obtain ps where ps: "released_by_detache (kind (s ! a)) = Some ps"
    and run: "forEach ps (\<lambda>p h. removeConsumer h p a) s = Inr s1"
    by (auto simp: detache_kind_released split: option.splits)
  from forEach_removeConsumer_gone [OF inv run]
  have "\<forall>p \<in> set ps. p < length s1 \<and> a \<notin> set (consumers (s1 ! p))"
    by (simp add: gone_from_def)
  from forEach_removeConsumer_absent [OF this]
  have "forEach ps (\<lambda>p h. removeConsumer h p a) s1 = Inr s1" .
  with len k ps show ?thesis
    by (simp add: detache_def lookup_def detache_kind_released)
qed

lemma producers_exist_same_kinds:
  assumes "producers_exist s" and "length s' = length s"
    and "\<forall>a < length s. kind (s' ! a) = kind (s ! a)"
  shows "producers_exist s'"
  using assms by (simp add: producers_exist_def)

lemma producers_exist_frame: "producers_exist s \<Longrightarrow> same_frame s s' \<Longrightarrow> producers_exist s'"
  by (simp add: producers_exist_def same_frame_def)

lemma forEach_addConsumer_valid:
  "forEach ps (\<lambda>p h. addConsumer h p c) s = Inr s' \<Longrightarrow> \<forall>p \<in> set ps. p < length s"
proof (induction ps arbitrary: s)
  case Nil
  then show ?case by simp
next
  case (Cons q qs)
  from Cons.prems obtain s1 where s1: "addConsumer s q c = Inr s1"
    and rest: "forEach qs (\<lambda>p h. addConsumer h p c) s1 = Inr s'"
    by (auto split: sum.splits)
  from addConsumer_Inr [OF s1] have q: "q < length s" and len: "length s1 = length s"
    by simp_all
  from Cons.IH [OF rest] len q show ?case by simp
qed

lemma construct_producers_exist:
  assumes inv: "producers_exist s" and call: "construct s k = Inr (a, s')"
  shows "producers_exist s'"
proof -
  let ?s1 = "s @ [\<lparr>kind = k, consumers = [], observers = []\<rparr>]"
  from call have run: "forEach (registered_with k) (\<lambda>p h. addConsumer h p (length s)) ?s1 = Inr s'"
    by (auto simp: construct_registered_with constructed_def split: sum.splits)
  from forEach_addConsumer_valid [OF run]
  have new: "\<forall>p \<in> set (registered_with k). p < length ?s1" .
  have "producers_exist ?s1"
    unfolding producers_exist_def
  proof (intro allI impI ballI)
    fix b p
    assume b: "b < length ?s1" and p: "p \<in> set (registered_with (kind (?s1 ! b)))"
    show "p < length ?s1"
    proof (cases "b < length s")
      case True
      with inv p have "p < length s" by (simp add: producers_exist_def nth_append)
      then show ?thesis by simp
    next
      case False
      with b have "b = length s" by simp
      with p new show ?thesis by simp
    qed
  qed
  from this forEach_addConsumer_frame [where g = "\<lambda>x. x", OF run]
  show ?thesis by (rule producers_exist_frame)
qed

lemma addObserver_producers_exist:
  "producers_exist s \<Longrightarrow> addObserver s p t = Inr s' \<Longrightarrow> producers_exist s'"
proof -
  assume inv: "producers_exist s" and call: "addObserver s p t = Inr s'"
  from addObserver_Inr [OF call]
  have "length s' = length s" and "\<forall>a < length s. kind (s' ! a) = kind (s ! a)"
    by (simp_all add: nth_list_update)
  with inv show ?thesis by (rule producers_exist_same_kinds)
qed

lemma removeObserver_producers_exist:
  "producers_exist s \<Longrightarrow> removeObserver s p t = Inr s' \<Longrightarrow> producers_exist s'"
proof -
  assume inv: "producers_exist s" and call: "removeObserver s p t = Inr s'"
  from removeObserver_Inr [OF call]
  have "length s' = length s" and "\<forall>a < length s. kind (s' ! a) = kind (s ! a)"
    by (simp_all add: nth_list_update)
  with inv show ?thesis by (rule producers_exist_same_kinds)
qed

lemma reachable_producers_exist: "reachable s \<Longrightarrow> producers_exist s"
proof (induction rule: reachable.induct)
  case reachable_empty
  show ?case by (simp add: producers_exist_def)
next
  case (reachable_construct s k a s')
  then show ?case by (simp add: construct_producers_exist)
next
  case (reachable_addConsumer s p c s')
  then show ?case using addConsumer_frame producers_exist_frame by blast
next
  case (reachable_removeConsumer s p c s')
  then show ?case using removeConsumer_frame producers_exist_frame by blast
next
  case (reachable_addObserver s p t s')
  then show ?case by (simp add: addObserver_producers_exist)
next
  case (reachable_removeObserver s p t s')
  then show ?case by (simp add: removeObserver_producers_exist)
next
  case (reachable_detache s p s')
  then show ?case using detache_frame producers_exist_frame by blast
qed

lemma released_subset_registered:
  "released_by_detache k = Some ps \<Longrightarrow> set ps \<subseteq> set (registered_with k)"
  by (cases k) auto

lemma forEach_removeConsumer_total:
  "\<forall>p \<in> set ps. p < length s \<Longrightarrow> \<exists>s'. forEach ps (\<lambda>p h. removeConsumer h p c) s = Inr s'"
proof (induction ps arbitrary: s)
  case Nil
  then show ?case by simp
next
  case (Cons q qs)
  let ?s1 = "s[q := (s ! q)\<lparr>consumers := indexOf_and_splice (consumers (s ! q)) c\<rparr>]"
  from Cons.prems have step: "removeConsumer s q c = Inr ?s1"
    by (simp add: removeConsumer_def lookup_def)
  from Cons.prems have "\<forall>p \<in> set qs. p < length ?s1" by simp
  from Cons.IH [OF this] step show ?case by simp
qed

lemma detache_returns:
  assumes "producers_exist s" and "a < length s"
    and "released_by_detache (kind (s ! a)) = Some ps"
  shows "\<exists>s1. detache s a = Inr s1"
proof -
  from released_subset_registered [OF assms(3)] assms(1,2)
  have "\<forall>p \<in> set ps. p < length s"
    by (auto simp: producers_exist_def)
  from forEach_removeConsumer_total [OF this, of a] assms(2,3) show ?thesis
    by (simp add: detache_def lookup_def detache_kind_released)
qed

lemma keeps_kinds_refl: "keeps_kinds s s"
  by (simp add: keeps_kinds_def)

lemma keeps_kinds_trans: "keeps_kinds s s1 \<Longrightarrow> keeps_kinds s1 s2 \<Longrightarrow> keeps_kinds s s2"
  by (simp add: keeps_kinds_def)

lemma same_frame_keeps_kinds: "same_frame s s' \<Longrightarrow> keeps_kinds s s'"
  by (simp add: same_frame_def keeps_kinds_def)

lemma construct_keeps_kinds: "construct s k = Inr (a, s') \<Longrightarrow> keeps_kinds s s'"
  using construct_Inr(2,5) [of s k a s'] by (simp add: keeps_kinds_def)

lemma addObserver_keeps_kinds: "addObserver s p t = Inr s' \<Longrightarrow> keeps_kinds s s'"
proof -
  assume call: "addObserver s p t = Inr s'"
  from addObserver_Inr [OF call]
  have "length s' = length s" and "\<forall>a < length s. kind (s' ! a) = kind (s ! a)"
    by (simp_all add: nth_list_update)
  then show ?thesis by (simp add: keeps_kinds_def)
qed

lemma removeObserver_keeps_kinds: "removeObserver s p t = Inr s' \<Longrightarrow> keeps_kinds s s'"
proof -
  assume call: "removeObserver s p t = Inr s'"
  from removeObserver_Inr [OF call]
  have "length s' = length s" and "\<forall>a < length s. kind (s' ! a) = kind (s ! a)"
    by (simp_all add: nth_list_update)
  then show ?thesis by (simp add: keeps_kinds_def)
qed

lemma evolves_keeps_kinds: "evolves s s' \<Longrightarrow> keeps_kinds s s'"
proof (induction rule: evolves.induct)
  case (evolves_refl s)
  show ?case by (rule keeps_kinds_refl)
next
  case (evolves_construct s s1 k a s2)
  then show ?case using construct_keeps_kinds keeps_kinds_trans by blast
next
  case (evolves_addConsumer s s1 p c s2)
  then show ?case using addConsumer_frame same_frame_keeps_kinds keeps_kinds_trans by blast
next
  case (evolves_removeConsumer s s1 p c s2)
  then show ?case using removeConsumer_frame same_frame_keeps_kinds keeps_kinds_trans by blast
next
  case (evolves_addObserver s s1 p t s2)
  then show ?case using addObserver_keeps_kinds keeps_kinds_trans by blast
next
  case (evolves_removeObserver s s1 p t s2)
  then show ?case using removeObserver_keeps_kinds keeps_kinds_trans by blast
next
  case (evolves_detache s s1 p s2)
  then show ?case using detache_frame same_frame_keeps_kinds keeps_kinds_trans by blast
qed

lemma constructed_kind_persists:
  assumes "construct s0 k = Inr (b, s1)" and "evolves s1 s2"
  shows "b < length s2 \<and> kind (s2 ! b) = k"
proof -
  from construct_Inr(1-3) [OF assms(1)] have "b < length s1" and "kind (s1 ! b) = k"
    by simp_all
  with evolves_keeps_kinds [OF assms(2)] show ?thesis
    by (simp add: keeps_kinds_def)
qed

lemma observers_bound_cases:
  "length xs \<le> Suc 0 \<and> set xs \<subseteq> {x} \<longleftrightarrow> xs = [] \<or> xs = [x]"
proof (cases xs)
  case Nil
  then show ?thesis by simp
next
  case (Cons y ys)
  then show ?thesis by (cases ys) auto
qed

lemma observer_calls_bound:
  assumes "a < length s" and "has_observers_field (s ! a)"
    and "observers (s ! a) = [] \<or> observers (s ! a) = [NodeObj a]"
  shows "\<exists>s'. observer_calls s a calls = Inr s'
           \<and> (observers (s' ! a) = [] \<or> observers (s' ! a) = [NodeObj a])"
  using assms
proof (induction calls arbitrary: s)
  case Nil
  then show ?case by simp
next
  case (Cons call calls)
  show ?case
  proof (cases call)
    case (AddObserver token)
    let ?s1 = "s[a := (s ! a)\<lparr>observers := includes_or_push (observers (s ! a)) (NodeObj a)\<rparr>]"
    from Cons.prems have step: "addObserver s a token = Inr ?s1"
      by (simp add: addObserver_def lookup_def)
    from Cons.prems have "a < length ?s1" and "has_observers_field (?s1 ! a)"
      and "observers (?s1 ! a) = [] \<or> observers (?s1 ! a) = [NodeObj a]"
      by (auto simp: has_observers_field_def includes_or_push_def)
    from Cons.IH [OF this] step AddObserver show ?thesis by simp
  next
    case (RemoveObserver token)
    let ?s1 = "s[a := (s ! a)\<lparr>observers := remove1 token (observers (s ! a))\<rparr>]"
    from Cons.prems have step: "removeObserver s a token = Inr ?s1"
      by (simp add: removeObserver_def lookup_def indexOf_and_splice_remove1)
    from Cons.prems have "a < length ?s1" and "has_observers_field (?s1 ! a)"
      and "observers (?s1 ! a) = [] \<or> observers (?s1 ! a) = [NodeObj a]"
      by (auto simp: has_observers_field_def split: if_splits)
    from Cons.IH [OF this] step RemoveObserver show ?thesis by simp
  qed
qed

section \<open>Helper lemmas on \<open>isObserved\<close>\<close>

lemma some_js_Inr_True: "some_js f cs = Inr True \<Longrightarrow> \<exists>c \<in> set cs. f c = Inr True"
  by (induction cs) (auto split: sum.splits if_splits)

lemma some_js_Inr_False: "some_js f cs = Inr False \<Longrightarrow> \<forall>c \<in> set cs. f c = Inr False"
  by (induction cs) (auto split: sum.splits if_splits)

lemma some_js_mono:
  "(\<And>c b. c \<in> set cs \<Longrightarrow> f c = Inr b \<Longrightarrow> g c = Inr b) \<Longrightarrow>
     some_js f cs = Inr b \<Longrightarrow> some_js g cs = Inr b"
proof (induction cs)
  case Nil
  then show ?case by simp
next
  case (Cons c cs)
  from Cons.prems(2) obtain b0 where fc: "f c = Inr b0"
    by (auto split: sum.splits)
  with Cons.prems(1) have gc: "g c = Inr b0" by simp
  show ?case
  proof (cases b0)
    case True
    with fc gc Cons.prems(2) show ?thesis by simp
  next
    case False
    with fc Cons.prems(2) have "some_js f cs = Inr b" by simp
    with Cons.IH Cons.prems(1) have "some_js g cs = Inr b" by simp
    with gc False show ?thesis by simp
  qed
qed

lemma some_js_total: "\<forall>c \<in> set cs. \<exists>b. f c = Inr b \<Longrightarrow> \<exists>b. some_js f cs = Inr b"
  by (induction cs) auto

lemma some_js_range:
  "\<forall>c \<in> set cs. f c = Inr False \<or> f c = Inl OutOfFuel \<Longrightarrow>
     some_js f cs = Inr False \<or> some_js f cs = Inl OutOfFuel"
  by (induction cs) auto

lemma isObserved_Suc_unfold:
  "a < length s \<Longrightarrow>
     isObserved (Suc n) s a =
       (if observed_directly s a then Inr True
        else some_js (\<lambda>c. isObserved n s c) (consumers (s ! a)))"
  by (cases "family_of (kind (s ! a))")
     (simp_all add: lookup_def observed_directly_def has_observers_field_def)

lemma isObserved_Inr_valid: "isObserved n s a = Inr b \<Longrightarrow> a < length s"
  by (cases n) (auto simp: lookup_def split: if_splits)

lemma isObserved_Suc: "isObserved n s a = Inr b \<Longrightarrow> isObserved (Suc n) s a = Inr b"
proof (induction n arbitrary: a b)
  case 0
  then show ?case by simp
next
  case (Suc n)
  from isObserved_Inr_valid [OF Suc.prems] have a: "a < length s" .
  show ?case
  proof (cases "observed_directly s a")
    case True
    with a Suc.prems show ?thesis by (simp only: isObserved_Suc_unfold if_True)
  next
    case False
    with a Suc.prems have "some_js (\<lambda>c. isObserved n s c) (consumers (s ! a)) = Inr b"
      by (simp only: isObserved_Suc_unfold if_False)
    then have "some_js (\<lambda>c. isObserved (Suc n) s c) (consumers (s ! a)) = Inr b"
      by (rule some_js_mono [rotated]) (rule Suc.IH)
    with a False show ?thesis by (simp only: isObserved_Suc_unfold [of a s "Suc n"] if_False)
  qed
qed

lemma isObserved_mono: "n \<le> m \<Longrightarrow> isObserved n s a = Inr b \<Longrightarrow> isObserved m s a = Inr b"
  by (induction m) (auto simp: le_Suc_eq dest: isObserved_Suc simp del: isObserved.simps)

lemma isObserved_deterministic:
  assumes "isObserved n s a = Inr b" and "isObserved m s a = Inr b'"
  shows "b = b'"
proof -
  from isObserved_mono [OF _ assms(1), of "max n m"] isObserved_mono [OF _ assms(2), of "max n m"]
  show ?thesis by simp
qed

lemma isObserved_result:
  assumes "isObserved n s a = Inr b"
  shows "b = (observed_directly s a
              \<or> (\<exists>c \<in> set (consumers (s ! a)). \<exists>m. isObserved m s c = Inr True))"
proof -
  from isObserved_Inr_valid [OF assms] have a: "a < length s" .
  from assms obtain k where n: "n = Suc k" by (cases n) auto
  show ?thesis
  proof (cases "observed_directly s a")
    case True
    with a assms n show ?thesis by (simp only: isObserved_Suc_unfold if_True) simp
  next
    case False
    with a assms n have run: "some_js (\<lambda>c. isObserved k s c) (consumers (s ! a)) = Inr b"
      by (simp only: isObserved_Suc_unfold if_False)
    show ?thesis
    proof (cases b)
      case True
      with run have "\<exists>c \<in> set (consumers (s ! a)). isObserved k s c = Inr True"
        by (simp add: some_js_Inr_True)
      then have "\<exists>c \<in> set (consumers (s ! a)). \<exists>m. isObserved m s c = Inr True"
        by blast
      with True show ?thesis by simp
    next
      case b: False
      with run some_js_Inr_False [of "\<lambda>c. isObserved k s c" "consumers (s ! a)"]
      have all: "\<forall>c \<in> set (consumers (s ! a)). isObserved k s c = Inr False" by simp
      have "\<not> (\<exists>c \<in> set (consumers (s ! a)). \<exists>m. isObserved m s c = Inr True)"
      proof
        assume "\<exists>c \<in> set (consumers (s ! a)). \<exists>m. isObserved m s c = Inr True"
        then obtain c m where c: "c \<in> set (consumers (s ! a))"
          and t: "isObserved m s c = Inr True" by blast
        from all c have "isObserved k s c = Inr False" by simp
        from isObserved_deterministic [OF this t] show False by simp
      qed
      with b False show ?thesis by simp
    qed
  qed
qed


lemma leaf_not_observed:
  assumes "construct s k = Inr (l, s')" and "registered_with k = []"
  shows "isObserved (Suc m) s' l = Inr False"
proof -
  from assms have l: "l = length s"
    and s': "s' = s @ [\<lparr>kind = k, consumers = [], observers = []\<rparr>]"
    by (auto simp: construct_registered_with constructed_def)
  then have "l < length s'" and "\<not> observed_directly s' l" and "consumers (s' ! l) = []"
    by (simp_all add: observed_directly_def)
  then show ?thesis by (simp only: isObserved_Suc_unfold if_False some_js.simps)
qed

section \<open>Helper lemmas on termination\<close>

lemma finite_consumer_edges: "closed_heap s \<Longrightarrow> finite (consumer_edges s)"
proof -
  assume "closed_heap s"
  then have "consumer_edges s \<subseteq> {..<length s} \<times> {..<length s}"
    by (auto simp: consumer_edges_def closed_heap_def)
  then show ?thesis by (rule finite_subset) simp
qed

lemma uniform_fuel:
  "\<forall>c \<in> set cs. \<exists>n b. isObserved n s c = Inr b \<Longrightarrow>
     \<exists>N. \<forall>c \<in> set cs. \<exists>b. isObserved N s c = Inr b"
proof (induction cs)
  case Nil
  then show ?case by simp
next
  case (Cons c cs)
  then obtain N where N: "\<forall>c \<in> set cs. \<exists>b. isObserved N s c = Inr b" by auto
  from Cons.prems obtain n b where n: "isObserved n s c = Inr b" by auto
  have "\<forall>x \<in> set (c # cs). \<exists>b. isObserved (max n N) s x = Inr b"
  proof
    fix x assume "x \<in> set (c # cs)"
    then consider "x = c" | "x \<in> set cs" by auto
    then show "\<exists>b. isObserved (max n N) s x = Inr b"
    proof cases
      case 1
      with isObserved_mono [OF _ n, of "max n N"] show ?thesis by auto
    next
      case 2
      with N obtain b' where "isObserved N s x = Inr b'" by auto
      from isObserved_mono [OF _ this, of "max n N"] show ?thesis by auto
    qed
  qed
  then show ?case ..
qed

lemma isObserved_returns_on_dag:
  assumes closed: "closed_heap s" and dag: "acyclic (consumer_edges s)"
  shows "a < length s \<Longrightarrow> \<exists>n b. isObserved n s a = Inr b"
proof -
  from finite_consumer_edges [OF closed] dag
  have "wf ((consumer_edges s)\<inverse>)" by (rule finite_acyclic_wf_converse)
  then show "a < length s \<Longrightarrow> \<exists>n b. isObserved n s a = Inr b"
  proof (induction a rule: wf_induct_rule)
    case (less a)
    have "\<forall>c \<in> set (consumers (s ! a)). \<exists>n b. isObserved n s c = Inr b"
    proof
      fix c assume c: "c \<in> set (consumers (s ! a))"
      with less.prems have edge: "(c, a) \<in> (consumer_edges s)\<inverse>"
        by (simp add: consumer_edges_def)
      from closed less.prems c have "c < length s" by (simp add: closed_heap_def)
      from less.IH [OF edge this] show "\<exists>n b. isObserved n s c = Inr b" .
    qed
    from uniform_fuel [OF this] obtain N
      where N: "\<forall>c \<in> set (consumers (s ! a)). \<exists>b. isObserved N s c = Inr b" ..
    from some_js_total [OF N] obtain b
      where "some_js (\<lambda>c. isObserved N s c) (consumers (s ! a)) = Inr b" ..
    with less.prems have "\<exists>b. isObserved (Suc N) s a = Inr b"
      by (simp only: isObserved_Suc_unfold) auto
    then show ?case by blast
  qed
qed

lemma unobserved_range:
  assumes closed: "closed_heap s"
    and quiet: "\<forall>b. (a, b) \<in> (consumer_edges s)\<^sup>* \<longrightarrow> \<not> observed_directly s b"
  shows "(a, b) \<in> (consumer_edges s)\<^sup>* \<Longrightarrow> b < length s \<Longrightarrow>
           isObserved n s b = Inr False \<or> isObserved n s b = Inl OutOfFuel"
proof (induction n arbitrary: b)
  case 0
  then show ?case by simp
next
  case (Suc n)
  have "\<forall>c \<in> set (consumers (s ! b)).
          isObserved n s c = Inr False \<or> isObserved n s c = Inl OutOfFuel"
  proof
    fix c assume c: "c \<in> set (consumers (s ! b))"
    with Suc.prems have "(b, c) \<in> consumer_edges s" by (simp add: consumer_edges_def)
    with Suc.prems(1) have reach: "(a, c) \<in> (consumer_edges s)\<^sup>*" by simp
    from closed Suc.prems(2) c have "c < length s" by (simp add: closed_heap_def)
    from Suc.IH [OF reach this]
    show "isObserved n s c = Inr False \<or> isObserved n s c = Inl OutOfFuel" .
  qed
  from some_js_range [OF this] quiet Suc.prems show ?case
    by (simp only: isObserved_Suc_unfold) simp
qed

lemma cycle_never_false:
  "(b, b) \<in> (consumer_edges s)\<^sup>+ \<Longrightarrow> isObserved n s b \<noteq> Inr False"
proof (induction n arbitrary: b)
  case 0
  then show ?case by simp
next
  case (Suc n)
  from tranclD [OF Suc.prems] obtain c
    where edge: "(b, c) \<in> consumer_edges s" and ret: "(c, b) \<in> (consumer_edges s)\<^sup>*"
    by blast
  from edge have b: "b < length s" and c: "c \<in> set (consumers (s ! b))"
    by (simp_all add: consumer_edges_def)
  from ret edge have "(c, c) \<in> (consumer_edges s)\<^sup>+" by (rule rtrancl_into_trancl1)
  from Suc.IH [OF this] have nf: "isObserved n s c \<noteq> Inr False" .
  show ?case
  proof
    assume f: "isObserved (Suc n) s b = Inr False"
    with b have "some_js (\<lambda>c. isObserved n s c) (consumers (s ! b)) = Inr False"
      by (simp only: isObserved_Suc_unfold split: if_splits) simp
    from some_js_Inr_False [OF this] c nf show False by simp
  qed
qed

lemma isObserved_diverges_on_cycle:
  assumes closed: "closed_heap s"
    and cycle: "(a, a) \<in> (consumer_edges s)\<^sup>+"
    and quiet: "\<forall>b. (a, b) \<in> (consumer_edges s)\<^sup>* \<longrightarrow> \<not> observed_directly s b"
  shows "isObserved n s a = Inl OutOfFuel"
proof -
  from tranclD [OF cycle] have a: "a < length s" by (auto simp: consumer_edges_def)
  from unobserved_range [OF closed quiet _ a, of n] cycle_never_false [OF cycle, of n]
  show ?thesis by simp
qed

lemma observed_directly_hasObserver:
  "a < length s \<Longrightarrow>
     family_of (kind (s ! a)) = TermFamily \<or> family_of (kind (s ! a)) = TabularFamily \<Longrightarrow>
     observed_directly s a = (hasObserver s a = Inr True)"
  by (auto simp: observed_directly_def hasObserver_def lookup_def has_observers_field_def)

lemma not_observed_directly:
  "family_of (kind (s ! a)) = GraphFamily \<or> family_of (kind (s ! a)) = DatasetFamily \<Longrightarrow>
     \<not> observed_directly s a"
  by (auto simp: observed_directly_def has_observers_field_def)

lemma isObserved_returns_result_on_dag:
  assumes "closed_heap s" and "acyclic (consumer_edges s)" and "a < length s"
  shows "\<exists>n. isObserved n s a =
           Inr (observed_directly s a
                \<or> (\<exists>c \<in> set (consumers (s ! a)). \<exists>m. isObserved m s c = Inr True))"
proof -
  from isObserved_returns_on_dag [OF assms] obtain n b where r: "isObserved n s a = Inr b"
    by blast
  from isObserved_result [OF r] r show ?thesis by blast
qed

section \<open>Claims\<close>

text \<open>
  C1. The end-to-end scenario, run on the code with a consumer token that is not the
  table itself: \<open>endpoint = new DefaultSparqlEndpoint()\<close>,
  \<open>table = new DefaultVarAllTerms(endpoint)\<close>; \<open>table.isObserved()\<close> is false;
  after \<open>table.addObserver(token)\<close> both \<open>table.isObserved()\<close> and
  \<open>endpoint.isObserved()\<close> are true; \<open>table.removeObserver(token)\<close> leaves the heap as
  it was, so both stay true instead of returning to false; \<open>table.detache()\<close> removes
  the table from the consumers of the endpoint.
\<close>

theorem end_to_end_scenario_stays_observed:
  "construct [] DefaultSparqlEndpoint
     = Inr (0, [\<lparr>kind = DefaultSparqlEndpoint, consumers = [], observers = []\<rparr>])
   \<and> construct [\<lparr>kind = DefaultSparqlEndpoint, consumers = [], observers = []\<rparr>]
        (DefaultVarAllTerms 0)
     = Inr (1, [\<lparr>kind = DefaultSparqlEndpoint, consumers = [1], observers = []\<rparr>,
                \<lparr>kind = DefaultVarAllTerms 0, consumers = [], observers = []\<rparr>])
   \<and> isObserved 2 [\<lparr>kind = DefaultSparqlEndpoint, consumers = [1], observers = []\<rparr>,
                    \<lparr>kind = DefaultVarAllTerms 0, consumers = [], observers = []\<rparr>] 1
     = Inr False
   \<and> addObserver [\<lparr>kind = DefaultSparqlEndpoint, consumers = [1], observers = []\<rparr>,
                   \<lparr>kind = DefaultVarAllTerms 0, consumers = [], observers = []\<rparr>] 1 (Token 0)
     = Inr [\<lparr>kind = DefaultSparqlEndpoint, consumers = [1], observers = []\<rparr>,
            \<lparr>kind = DefaultVarAllTerms 0, consumers = [], observers = [NodeObj 1]\<rparr>]
   \<and> isObserved 2 [\<lparr>kind = DefaultSparqlEndpoint, consumers = [1], observers = []\<rparr>,
                    \<lparr>kind = DefaultVarAllTerms 0, consumers = [], observers = [NodeObj 1]\<rparr>] 1
     = Inr True
   \<and> isObserved 2 [\<lparr>kind = DefaultSparqlEndpoint, consumers = [1], observers = []\<rparr>,
                    \<lparr>kind = DefaultVarAllTerms 0, consumers = [], observers = [NodeObj 1]\<rparr>] 0
     = Inr True
   \<and> removeObserver [\<lparr>kind = DefaultSparqlEndpoint, consumers = [1], observers = []\<rparr>,
                      \<lparr>kind = DefaultVarAllTerms 0, consumers = [], observers = [NodeObj 1]\<rparr>]
        1 (Token 0)
     = Inr [\<lparr>kind = DefaultSparqlEndpoint, consumers = [1], observers = []\<rparr>,
            \<lparr>kind = DefaultVarAllTerms 0, consumers = [], observers = [NodeObj 1]\<rparr>]
   \<and> detache [\<lparr>kind = DefaultSparqlEndpoint, consumers = [1], observers = []\<rparr>,
               \<lparr>kind = DefaultVarAllTerms 0, consumers = [], observers = [NodeObj 1]\<rparr>] 1
     = Inr [\<lparr>kind = DefaultSparqlEndpoint, consumers = [], observers = []\<rparr>,
            \<lparr>kind = DefaultVarAllTerms 0, consumers = [], observers = [NodeObj 1]\<rparr>]"
  by (simp add: alloc_def constructed_def addConsumer_def removeConsumer_def addObserver_def
        removeObserver_def detache_def lookup_def has_observers_field_def includes_or_push_def
        indexOf_and_splice_remove1 numeral_2_eq_2)

text \<open>
  C2. \<open>new DatasetBuilder(defaultGraphSource, namedGraphSources)\<close> with a \<open>Map\<close> of one
  entry: the builder is registered with the default graph source, and the graph source
  that is the value of the entry is left without any consumer, because the constructor
  walks \<open>Object.values\<close> of the map and not its entries.
\<close>

theorem datasetBuilder_skips_named_graphs:
  "Map_values (JSMap [(2, 1)] []) = [1]
   \<and> construct [\<lparr>kind = GraphSource ''default'', consumers = [], observers = []\<rparr>,
                 \<lparr>kind = GraphSource ''named'', consumers = [], observers = []\<rparr>,
                 \<lparr>kind = RDFTerm ''name'', consumers = [], observers = []\<rparr>]
        (DatasetBuilder 0 (JSMap [(2, 1)] []))
     = Inr (3, [\<lparr>kind = GraphSource ''default'', consumers = [3], observers = []\<rparr>,
                \<lparr>kind = GraphSource ''named'', consumers = [], observers = []\<rparr>,
                \<lparr>kind = RDFTerm ''name'', consumers = [], observers = []\<rparr>,
                \<lparr>kind = DatasetBuilder 0 (JSMap [(2, 1)] []), consumers = [],
                   observers = []\<rparr>])"
  by (simp add: Map_values_def Object_values_def alloc_def constructed_def addConsumer_def
        lookup_def includes_or_push_def)

text \<open>
  C3. \<open>addObserver(o)\<close> on a fresh \<open>RDFTerm\<close> with a token \<open>o\<close> other than the node:
  the observer list receives the node and not \<open>o\<close>; \<open>removeObserver(o)\<close> then finds
  nothing to remove, and \<open>hasObserver()\<close> stays true.
\<close>

theorem addObserver_stores_the_node_itself:
  "addObserver [\<lparr>kind = RDFTerm ''x'', consumers = [], observers = []\<rparr>] 0 (Token 7)
     = Inr [\<lparr>kind = RDFTerm ''x'', consumers = [], observers = [NodeObj 0]\<rparr>]
   \<and> removeObserver [\<lparr>kind = RDFTerm ''x'', consumers = [], observers = [NodeObj 0]\<rparr>] 0 (Token 7)
     = Inr [\<lparr>kind = RDFTerm ''x'', consumers = [], observers = [NodeObj 0]\<rparr>]
   \<and> hasObserver [\<lparr>kind = RDFTerm ''x'', consumers = [], observers = [NodeObj 0]\<rparr>] 0
     = Inr True"
  by (simp add: addObserver_def removeObserver_def hasObserver_def lookup_def
        has_observers_field_def includes_or_push_def indexOf_and_splice_remove1)

text \<open>
  C4. A \<open>SelectQuerySource\<close> constructed over a dataset source and one binding tabular
  source is registered with both; after its \<open>detache()\<close> the dataset source no longer
  lists it and the binding source still does.
\<close>

theorem selectQuery_detache_keeps_binding_registration:
  "construct [\<lparr>kind = DefaultSparqlEndpoint, consumers = [], observers = []\<rparr>,
              \<lparr>kind = TabularSource ''t'', consumers = [], observers = []\<rparr>]
        (SelectQuerySource (VarMapping None []) ''q'' 0 [(1, VarMapping None [])])
     = Inr (2, [\<lparr>kind = DefaultSparqlEndpoint, consumers = [2], observers = []\<rparr>,
                \<lparr>kind = TabularSource ''t'', consumers = [2], observers = []\<rparr>,
                \<lparr>kind = SelectQuerySource (VarMapping None []) ''q'' 0 [(1, VarMapping None [])],
                   consumers = [], observers = []\<rparr>])
   \<and> detache [\<lparr>kind = DefaultSparqlEndpoint, consumers = [2], observers = []\<rparr>,
               \<lparr>kind = TabularSource ''t'', consumers = [2], observers = []\<rparr>,
               \<lparr>kind = SelectQuerySource (VarMapping None []) ''q'' 0 [(1, VarMapping None [])],
                  consumers = [], observers = []\<rparr>] 2
     = Inr [\<lparr>kind = DefaultSparqlEndpoint, consumers = [], observers = []\<rparr>,
            \<lparr>kind = TabularSource ''t'', consumers = [2], observers = []\<rparr>,
            \<lparr>kind = SelectQuerySource (VarMapping None []) ''q'' 0 [(1, VarMapping None [])],
               consumers = [], observers = []\<rparr>]"
  by (simp add: alloc_def constructed_def addConsumer_def removeConsumer_def detache_def
        lookup_def includes_or_push_def indexOf_and_splice_remove1)


text \<open>
  C5, as amended. Whenever \<open>isObserved()\<close> returns on a node, its result is
  \<open>hasObserver() || (some consumer's isObserved() returns true)\<close> for a node of the term
  or tabular family, and \<open>(some consumer's isObserved() returns true)\<close> for a node of the
  graph or dataset family. On a closed heap whose consumer edges are acyclic
  \<open>isObserved()\<close> does return on every node, with that value. In particular a freshly
  constructed leaf (\<open>RDFTerm\<close>, \<open>SparqlEndpoint\<close>, \<open>DefaultSparqlEndpoint\<close>) has no
  consumer and no observer, and \<open>isObserved()\<close> on it returns false.
\<close>

theorem isObserved_is_observer_or_observed_consumer:
  "(isObserved n s a = Inr b \<longrightarrow>
      a < length s
      \<and> (family_of (kind (s ! a)) = TermFamily \<or> family_of (kind (s ! a)) = TabularFamily
           \<longrightarrow> b = (hasObserver s a = Inr True
                     \<or> (\<exists>c \<in> set (consumers (s ! a)). \<exists>m. isObserved m s c = Inr True)))
      \<and> (family_of (kind (s ! a)) = GraphFamily \<or> family_of (kind (s ! a)) = DatasetFamily
           \<longrightarrow> b = (\<exists>c \<in> set (consumers (s ! a)). \<exists>m. isObserved m s c = Inr True)))
   \<and> (closed_heap s \<and> acyclic (consumer_edges s) \<and> a < length s \<longrightarrow>
        (family_of (kind (s ! a)) = TermFamily \<or> family_of (kind (s ! a)) = TabularFamily
           \<longrightarrow> (\<exists>fuel. isObserved fuel s a =
                  Inr (hasObserver s a = Inr True
                       \<or> (\<exists>c \<in> set (consumers (s ! a)). \<exists>m. isObserved m s c = Inr True))))
        \<and> (family_of (kind (s ! a)) = GraphFamily \<or> family_of (kind (s ! a)) = DatasetFamily
           \<longrightarrow> (\<exists>fuel. isObserved fuel s a =
                  Inr (\<exists>c \<in> set (consumers (s ! a)). \<exists>m. isObserved m s c = Inr True))))
   \<and> (k = RDFTerm t \<or> k = SparqlEndpoint u \<or> k = DefaultSparqlEndpoint
        \<longrightarrow> (\<exists>l s'. construct s k = Inr (l, s')
                  \<and> consumers (s' ! l) = [] \<and> observers (s' ! l) = []
                  \<and> isObserved (Suc m) s' l = Inr False))"
proof (intro conjI impI)
  assume r: "isObserved n s a = Inr b"
  from isObserved_Inr_valid [OF r] show a: "a < length s" .
  {
    assume "family_of (kind (s ! a)) = TermFamily \<or> family_of (kind (s ! a)) = TabularFamily"
    from observed_directly_hasObserver [OF a this] isObserved_result [OF r]
    show "b = (hasObserver s a = Inr True
                \<or> (\<exists>c \<in> set (consumers (s ! a)). \<exists>m. isObserved m s c = Inr True))"
      by simp
  }
  {
    assume "family_of (kind (s ! a)) = GraphFamily \<or> family_of (kind (s ! a)) = DatasetFamily"
    from not_observed_directly [OF this] isObserved_result [OF r]
    show "b = (\<exists>c \<in> set (consumers (s ! a)). \<exists>m. isObserved m s c = Inr True)"
      by simp
  }
next
  assume dag: "closed_heap s \<and> acyclic (consumer_edges s) \<and> a < length s"
  then have a: "a < length s" by simp
  from dag isObserved_returns_result_on_dag [of s a]
  have run: "\<exists>fuel. isObserved fuel s a =
           Inr (observed_directly s a
                \<or> (\<exists>c \<in> set (consumers (s ! a)). \<exists>m. isObserved m s c = Inr True))"
    by simp
  {
    assume "family_of (kind (s ! a)) = TermFamily \<or> family_of (kind (s ! a)) = TabularFamily"
    from observed_directly_hasObserver [OF a this] run
    show "\<exists>fuel. isObserved fuel s a =
            Inr (hasObserver s a = Inr True
                 \<or> (\<exists>c \<in> set (consumers (s ! a)). \<exists>m. isObserved m s c = Inr True))"
      by simp
  }
  {
    assume "family_of (kind (s ! a)) = GraphFamily \<or> family_of (kind (s ! a)) = DatasetFamily"
    from not_observed_directly [OF this] run
    show "\<exists>fuel. isObserved fuel s a =
            Inr (\<exists>c \<in> set (consumers (s ! a)). \<exists>m. isObserved m s c = Inr True)"
      by simp
  }
next
  assume k: "k = RDFTerm t \<or> k = SparqlEndpoint u \<or> k = DefaultSparqlEndpoint"
  let ?s' = "s @ [\<lparr>kind = k, consumers = [], observers = []\<rparr>]"
  from k have c: "construct s k = Inr (length s, ?s')" and leaf: "registered_with k = []"
    by (auto simp: alloc_def)
  from leaf_not_observed [OF c leaf, of m] c
  show "\<exists>l s'. construct s k = Inr (l, s')
          \<and> consumers (s' ! l) = [] \<and> observers (s' ! l) = []
          \<and> isObserved (Suc m) s' l = Inr False"
    by simp
qed

theorem isObserved_is_observer_or_observed_consumer_witness:
  "isObserved 2 [\<lparr>kind = DefaultSparqlEndpoint, consumers = [1], observers = []\<rparr>,
                 \<lparr>kind = DefaultVarAllTerms 0, consumers = [], observers = [NodeObj 1]\<rparr>] 0
     = Inr True
   \<and> hasObserver [\<lparr>kind = DefaultSparqlEndpoint, consumers = [1], observers = []\<rparr>,
                 \<lparr>kind = DefaultVarAllTerms 0, consumers = [], observers = [NodeObj 1]\<rparr>] 1
     = Inr True
   \<and> (\<exists>c \<in> set (consumers ([\<lparr>kind = DefaultSparqlEndpoint, consumers = [1], observers = []\<rparr>,
                 \<lparr>kind = DefaultVarAllTerms 0, consumers = [], observers = [NodeObj 1]\<rparr>] ! 0)).
        \<exists>m. isObserved m [\<lparr>kind = DefaultSparqlEndpoint, consumers = [1], observers = []\<rparr>,
                 \<lparr>kind = DefaultVarAllTerms 0, consumers = [], observers = [NodeObj 1]\<rparr>] c
             = Inr True)
   \<and> closed_heap [\<lparr>kind = DefaultSparqlEndpoint, consumers = [1], observers = []\<rparr>,
                  \<lparr>kind = DefaultVarAllTerms 0, consumers = [], observers = []\<rparr>]
   \<and> acyclic (consumer_edges
                 [\<lparr>kind = DefaultSparqlEndpoint, consumers = [1], observers = []\<rparr>,
                  \<lparr>kind = DefaultVarAllTerms 0, consumers = [], observers = []\<rparr>])
   \<and> (\<exists>fuel. isObserved fuel
                 [\<lparr>kind = DefaultSparqlEndpoint, consumers = [1], observers = []\<rparr>,
                  \<lparr>kind = DefaultVarAllTerms 0, consumers = [], observers = []\<rparr>] 1 = Inr False)
   \<and> (\<exists>fuel. isObserved fuel
                 [\<lparr>kind = DefaultSparqlEndpoint, consumers = [1], observers = []\<rparr>,
                  \<lparr>kind = DefaultVarAllTerms 0, consumers = [], observers = []\<rparr>] 0 = Inr False)
   \<and> construct [] (RDFTerm ''x'')
       = Inr (0, [\<lparr>kind = RDFTerm ''x'', consumers = [], observers = []\<rparr>])
   \<and> isObserved 1 [\<lparr>kind = RDFTerm ''x'', consumers = [], observers = []\<rparr>] 0 = Inr False"
proof -
  let ?h = "[\<lparr>kind = DefaultSparqlEndpoint, consumers = [1], observers = []\<rparr>,
             \<lparr>kind = DefaultVarAllTerms 0, consumers = [], observers = [NodeObj 1]\<rparr>]"
  let ?dag = "[\<lparr>kind = DefaultSparqlEndpoint, consumers = [1], observers = []\<rparr>,
               \<lparr>kind = DefaultVarAllTerms 0, consumers = [], observers = []\<rparr>]"
  have run: "isObserved 2 ?h 0 = Inr True"
    by (simp add: numeral_2_eq_2 lookup_def)
  have obs: "hasObserver ?h 1 = Inr True"
    by (simp add: hasObserver_def lookup_def has_observers_field_def)
  have leaf: "construct [] (RDFTerm ''x'')
       = Inr (0, [\<lparr>kind = RDFTerm ''x'', consumers = [], observers = []\<rparr>])"
    by (simp add: alloc_def)
  from isObserved_is_observer_or_observed_consumer [of 2 ?h 0 True] run
  have up: "\<exists>c \<in> set (consumers (?h ! 0)). \<exists>m. isObserved m ?h c = Inr True"
    by simp
  from isObserved_is_observer_or_observed_consumer [of 0 "[]" 0 False "RDFTerm ''x''" "''x''" "''u''" 0] leaf
  have down: "isObserved 1 [\<lparr>kind = RDFTerm ''x'', consumers = [], observers = []\<rparr>] 0 = Inr False"
    by simp
  have closed_dag: "closed_heap ?dag"
    by (simp add: closed_heap_def All_less_Suc)
  have "consumer_edges ?dag = {(0, 1)}"
    by (auto simp: consumer_edges_def less_Suc_eq)
  moreover have "acyclic ({} :: (ref \<times> ref) set)"
    by (simp add: acyclic_def)
  ultimately have dag: "acyclic (consumer_edges ?dag)"
    by simp
  have no_obs: "hasObserver ?dag 1 = Inr False"
    by (simp add: hasObserver_def lookup_def has_observers_field_def)
  from isObserved_is_observer_or_observed_consumer [of 0 ?dag 1] closed_dag dag no_obs
  have table: "\<exists>fuel. isObserved fuel ?dag 1 = Inr False"
    by simp
  have "\<not> (\<exists>c \<in> set (consumers (?dag ! 0)). \<exists>m. isObserved m ?dag c = Inr True)"
  proof
    assume "\<exists>c \<in> set (consumers (?dag ! 0)). \<exists>m. isObserved m ?dag c = Inr True"
    then obtain m where t: "isObserved m ?dag 1 = Inr True" by auto
    from table obtain fuel where f: "isObserved fuel ?dag 1 = Inr False" by blast
    from isObserved_deterministic [OF t f] show False by simp
  qed
  with isObserved_is_observer_or_observed_consumer [of 0 ?dag 0] closed_dag dag
  have endpoint: "\<exists>fuel. isObserved fuel ?dag 0 = Inr False"
    by simp
  from run obs up closed_dag dag table endpoint leaf down show ?thesis
    by blast
qed

text \<open>
  C5 as stated, for every source node, fails: a program can build an endpoint whose
  consumers are a dataset merge that is its own consumer, and then an observed table.
  \<open>isObserved()\<close> on the table returns true, so the right-hand side of the equation is
  true, and \<open>isObserved()\<close> on the endpoint never returns: \<open>some\<close> asks the merge first,
  and that call recurses for ever.
\<close>

theorem isObserved_diverges_before_observed_consumer_counterexample:
  "reachable [\<lparr>kind = DefaultSparqlEndpoint, consumers = [1, 2], observers = []\<rparr>,
              \<lparr>kind = DatasetMerge [0], consumers = [1], observers = []\<rparr>,
              \<lparr>kind = DefaultVarAllTerms 0, consumers = [], observers = [NodeObj 2]\<rparr>]
   \<and> 2 \<in> set (consumers
        ([\<lparr>kind = DefaultSparqlEndpoint, consumers = [1, 2], observers = []\<rparr>,
          \<lparr>kind = DatasetMerge [0], consumers = [1], observers = []\<rparr>,
          \<lparr>kind = DefaultVarAllTerms 0, consumers = [], observers = [NodeObj 2]\<rparr>] ! 0))
   \<and> isObserved 1
        [\<lparr>kind = DefaultSparqlEndpoint, consumers = [1, 2], observers = []\<rparr>,
         \<lparr>kind = DatasetMerge [0], consumers = [1], observers = []\<rparr>,
         \<lparr>kind = DefaultVarAllTerms 0, consumers = [], observers = [NodeObj 2]\<rparr>] 2 = Inr True
   \<and> (\<forall>fuel. isObserved fuel
        [\<lparr>kind = DefaultSparqlEndpoint, consumers = [1, 2], observers = []\<rparr>,
         \<lparr>kind = DatasetMerge [0], consumers = [1], observers = []\<rparr>,
         \<lparr>kind = DefaultVarAllTerms 0, consumers = [], observers = [NodeObj 2]\<rparr>] 0
          = Inl OutOfFuel)"
proof -
  let ?h1 = "[\<lparr>kind = DefaultSparqlEndpoint, consumers = [], observers = []\<rparr>]"
  let ?h2 = "[\<lparr>kind = DefaultSparqlEndpoint, consumers = [1], observers = []\<rparr>,
              \<lparr>kind = DatasetMerge [0], consumers = [], observers = []\<rparr>]"
  let ?h3 = "[\<lparr>kind = DefaultSparqlEndpoint, consumers = [1], observers = []\<rparr>,
              \<lparr>kind = DatasetMerge [0], consumers = [1], observers = []\<rparr>]"
  let ?h4 = "[\<lparr>kind = DefaultSparqlEndpoint, consumers = [1, 2], observers = []\<rparr>,
              \<lparr>kind = DatasetMerge [0], consumers = [1], observers = []\<rparr>,
              \<lparr>kind = DefaultVarAllTerms 0, consumers = [], observers = []\<rparr>]"
  let ?h5 = "[\<lparr>kind = DefaultSparqlEndpoint, consumers = [1, 2], observers = []\<rparr>,
              \<lparr>kind = DatasetMerge [0], consumers = [1], observers = []\<rparr>,
              \<lparr>kind = DefaultVarAllTerms 0, consumers = [], observers = [NodeObj 2]\<rparr>]"
  have c1: "construct [] DefaultSparqlEndpoint = Inr (0, ?h1)"
    by (simp add: alloc_def)
  have c2: "construct ?h1 (DatasetMerge [0]) = Inr (1, ?h2)"
    by (simp add: alloc_def constructed_def addConsumer_def lookup_def includes_or_push_def)
  have c3: "addConsumer ?h2 1 1 = Inr ?h3"
    by (simp add: addConsumer_def lookup_def includes_or_push_def)
  have c4: "construct ?h3 (DefaultVarAllTerms 0) = Inr (2, ?h4)"
    by (simp add: alloc_def constructed_def addConsumer_def lookup_def includes_or_push_def)
  have c5: "addObserver ?h4 2 (Token 0) = Inr ?h5"
    by (simp add: addObserver_def lookup_def has_observers_field_def includes_or_push_def)
  have r: "reachable ?h5"
    by (rule reachable_addObserver [OF reachable_construct [OF reachable_addConsumer
          [OF reachable_construct [OF reachable_construct [OF reachable_empty c1] c2] c3] c4] c5])
  have merge: "isObserved fuel ?h5 1 = Inl OutOfFuel" for fuel
    by (induction fuel) (simp_all add: lookup_def)
  have endpoint: "isObserved fuel ?h5 0 = Inl OutOfFuel" for fuel
    using merge by (cases fuel) (simp_all add: lookup_def)
  have table: "isObserved 1 ?h5 2 = Inr True"
    by (simp add: lookup_def)
  from r table endpoint show ?thesis
    by simp
qed

text \<open>
  C6. Idempotent consumer registration. For a producer \<open>p\<close> of any family and any consumer
  \<open>c\<close>, \<open>addConsumer(c)\<close> returns without an error (also when \<open>c\<close> is already registered),
  appends \<open>c\<close> to the consumer list exactly when \<open>c\<close> is not in it, changes nothing else,
  and a second call in a row leaves the heap as the first call left it.
\<close>

theorem addConsumer_idempotent:
  assumes "p < length s"
  shows "\<exists>s1. addConsumer s p c = Inr s1
           \<and> addConsumer s1 p c = Inr s1
           \<and> consumers (s1 ! p) =
               (if c \<in> set (consumers (s ! p)) then consumers (s ! p) else consumers (s ! p) @ [c])
           \<and> length s1 = length s
           \<and> kind (s1 ! p) = kind (s ! p) \<and> observers (s1 ! p) = observers (s ! p)
           \<and> (\<forall>q. q \<noteq> p \<longrightarrow> s1 ! q = s ! q)"
  using assms
  by (simp add: addConsumer_def lookup_def includes_or_push_def)

theorem addConsumer_idempotent_witness:
  "addConsumer [\<lparr>kind = DefaultSparqlEndpoint, consumers = [1], observers = []\<rparr>] 0 1
     = Inr [\<lparr>kind = DefaultSparqlEndpoint, consumers = [1], observers = []\<rparr>]
   \<and> addConsumer [\<lparr>kind = DefaultSparqlEndpoint, consumers = [], observers = []\<rparr>] 0 1
     = Inr [\<lparr>kind = DefaultSparqlEndpoint, consumers = [1], observers = []\<rparr>]"
  using addConsumer_idempotent [of 0 "[\<lparr>kind = DefaultSparqlEndpoint, consumers = [1], observers = []\<rparr>]" 1]
    addConsumer_idempotent [of 0 "[\<lparr>kind = DefaultSparqlEndpoint, consumers = [], observers = []\<rparr>]" 1]
  by (simp add: addConsumer_def lookup_def includes_or_push_def)

text \<open>
  C7. Idempotent removal and safe double-detach. \<open>removeConsumer(c)\<close> on a producer that
  does not list \<open>c\<close> returns without an error and leaves the whole heap, hence the
  consumer list, unchanged. Consequently, on every heap a program can build,
  \<open>detache()\<close> on a derived node returns, and called a second time it returns again and
  changes nothing, so every producer keeps its consumer list.
\<close>

theorem removeConsumer_absent_noop_and_double_detache:
  "(p < length s \<and> c \<notin> set (consumers (s ! p)) \<longrightarrow> removeConsumer s p c = Inr s)
   \<and> (reachable s \<and> a < length s \<and> released_by_detache (kind (s ! a)) \<noteq> None
        \<longrightarrow> (\<exists>s1. detache s a = Inr s1))
   \<and> (reachable s \<and> detache s a = Inr s1 \<longrightarrow> detache s1 a = Inr s1)"
proof (intro conjI impI)
  assume "p < length s \<and> c \<notin> set (consumers (s ! p))"
  then show "removeConsumer s p c = Inr s"
    by (simp add: removeConsumer_absent)
next
  assume h: "reachable s \<and> a < length s \<and> released_by_detache (kind (s ! a)) \<noteq> None"
  then obtain ps where "released_by_detache (kind (s ! a)) = Some ps" by auto
  with h reachable_producers_exist [of s] show "\<exists>s1. detache s a = Inr s1"
    by (simp add: detache_returns)
next
  assume "reachable s \<and> detache s a = Inr s1"
  with reachable_ledger_inv [of s] show "detache s1 a = Inr s1"
    by (simp add: detache_twice)
qed

theorem removeConsumer_absent_noop_and_double_detache_witness:
  "removeConsumer
     [\<lparr>kind = DefaultSparqlEndpoint, consumers = [1], observers = []\<rparr>,
      \<lparr>kind = DefaultVarAllTerms 0, consumers = [], observers = []\<rparr>] 1 0
   = Inr [\<lparr>kind = DefaultSparqlEndpoint, consumers = [1], observers = []\<rparr>,
          \<lparr>kind = DefaultVarAllTerms 0, consumers = [], observers = []\<rparr>]
   \<and> detache
     [\<lparr>kind = DefaultSparqlEndpoint, consumers = [1], observers = []\<rparr>,
      \<lparr>kind = DefaultVarAllTerms 0, consumers = [], observers = []\<rparr>] 1
   = Inr [\<lparr>kind = DefaultSparqlEndpoint, consumers = [], observers = []\<rparr>,
          \<lparr>kind = DefaultVarAllTerms 0, consumers = [], observers = []\<rparr>]
   \<and> detache
     [\<lparr>kind = DefaultSparqlEndpoint, consumers = [], observers = []\<rparr>,
      \<lparr>kind = DefaultVarAllTerms 0, consumers = [], observers = []\<rparr>] 1
   = Inr [\<lparr>kind = DefaultSparqlEndpoint, consumers = [], observers = []\<rparr>,
          \<lparr>kind = DefaultVarAllTerms 0, consumers = [], observers = []\<rparr>]"
proof -
  let ?h1 = "[\<lparr>kind = DefaultSparqlEndpoint, consumers = [], observers = []\<rparr>]"
  let ?h2 = "[\<lparr>kind = DefaultSparqlEndpoint, consumers = [1], observers = []\<rparr>,
              \<lparr>kind = DefaultVarAllTerms 0, consumers = [], observers = []\<rparr>]"
  let ?h3 = "[\<lparr>kind = DefaultSparqlEndpoint, consumers = [], observers = []\<rparr>,
              \<lparr>kind = DefaultVarAllTerms 0, consumers = [], observers = []\<rparr>]"
  have c1: "construct [] DefaultSparqlEndpoint = Inr (0, ?h1)"
    by (simp add: alloc_def)
  have c2: "construct ?h1 (DefaultVarAllTerms 0) = Inr (1, ?h2)"
    by (simp add: alloc_def constructed_def addConsumer_def lookup_def includes_or_push_def)
  have r: "reachable ?h2"
    by (rule reachable_construct [OF reachable_construct [OF reachable_empty c1] c2])
  have d: "detache ?h2 1 = Inr ?h3"
    by (simp add: detache_def lookup_def removeConsumer_def indexOf_and_splice_remove1)
  have absent: "(1::nat) < length ?h2 \<and> (0::nat) \<notin> set (consumers (?h2 ! 1))"
    by simp
  from removeConsumer_absent_noop_and_double_detache [of 1 ?h2 0 1 ?h3] r d absent
  show ?thesis by simp
qed

text \<open>
  C8. On a node of the tabular family \<open>getDatasetSource()\<close> never throws, on any heap.
  A plain \<open>TabularSource\<close>, which has no dataset source, answers the explicit absent
  value; every \<open>SelectQuerySource\<close> and every \<open>DefaultVarAllTerms\<close> answers its
  \<open>datasetSource\<close> field. That field is the \<open>datasetSource\<close> given to the constructor:
  the answer is the same right after construction and after any further constructor
  and method calls.
\<close>

theorem getDatasetSource_never_throws:
  "(a < length s \<and> family_of (kind (s ! a)) = TabularFamily
      \<longrightarrow> (\<exists>r. getDatasetSource s a = Inr r))
   \<and> (a < length s \<and> kind (s ! a) = TabularSource t \<longrightarrow> getDatasetSource s a = Inr None)
   \<and> (a < length s \<and> kind (s ! a) = SelectQuerySource out q ds bs
      \<longrightarrow> getDatasetSource s a = Inr (Some ds))
   \<and> (a < length s \<and> kind (s ! a) = DefaultVarAllTerms ds
      \<longrightarrow> getDatasetSource s a = Inr (Some ds))
   \<and> (construct s0 (TabularSource t) = Inr (b, s1) \<and> evolves s1 s2
      \<longrightarrow> getDatasetSource s2 b = Inr None)
   \<and> (construct s0 (SelectQuerySource out q ds bs) = Inr (b, s1) \<and> evolves s1 s2
      \<longrightarrow> getDatasetSource s2 b = Inr (Some ds))
   \<and> (construct s0 (DefaultVarAllTerms ds) = Inr (b, s1) \<and> evolves s1 s2
      \<longrightarrow> getDatasetSource s2 b = Inr (Some ds))"
proof (intro conjI impI)
  assume "a < length s \<and> family_of (kind (s ! a)) = TabularFamily"
  then show "\<exists>r. getDatasetSource s a = Inr r"
    by (cases "kind (s ! a)") (simp_all add: getDatasetSource_def lookup_def)
next
  assume "a < length s \<and> kind (s ! a) = TabularSource t"
  then show "getDatasetSource s a = Inr None"
    by (simp add: getDatasetSource_def lookup_def)
next
  assume "a < length s \<and> kind (s ! a) = SelectQuerySource out q ds bs"
  then show "getDatasetSource s a = Inr (Some ds)"
    by (simp add: getDatasetSource_def lookup_def)
next
  assume "a < length s \<and> kind (s ! a) = DefaultVarAllTerms ds"
  then show "getDatasetSource s a = Inr (Some ds)"
    by (simp add: getDatasetSource_def lookup_def)
next
  assume "construct s0 (TabularSource t) = Inr (b, s1) \<and> evolves s1 s2"
  then have "b < length s2 \<and> kind (s2 ! b) = TabularSource t"
    using constructed_kind_persists by blast
  then show "getDatasetSource s2 b = Inr None"
    by (simp add: getDatasetSource_def lookup_def)
next
  assume "construct s0 (SelectQuerySource out q ds bs) = Inr (b, s1) \<and> evolves s1 s2"
  then have "b < length s2 \<and> kind (s2 ! b) = SelectQuerySource out q ds bs"
    using constructed_kind_persists by blast
  then show "getDatasetSource s2 b = Inr (Some ds)"
    by (simp add: getDatasetSource_def lookup_def)
next
  assume "construct s0 (DefaultVarAllTerms ds) = Inr (b, s1) \<and> evolves s1 s2"
  then have "b < length s2 \<and> kind (s2 ! b) = DefaultVarAllTerms ds"
    using constructed_kind_persists by blast
  then show "getDatasetSource s2 b = Inr (Some ds)"
    by (simp add: getDatasetSource_def lookup_def)
qed


theorem getDatasetSource_never_throws_witness:
  "getDatasetSource [\<lparr>kind = TabularSource ''t'', consumers = [], observers = []\<rparr>] 0 = Inr None
   \<and> construct [\<lparr>kind = DefaultSparqlEndpoint, consumers = [], observers = []\<rparr>]
        (DefaultVarAllTerms 0)
      = Inr (1, [\<lparr>kind = DefaultSparqlEndpoint, consumers = [1], observers = []\<rparr>,
                 \<lparr>kind = DefaultVarAllTerms 0, consumers = [], observers = []\<rparr>])
   \<and> construct [\<lparr>kind = DefaultSparqlEndpoint, consumers = [1], observers = []\<rparr>,
                 \<lparr>kind = DefaultVarAllTerms 0, consumers = [], observers = []\<rparr>]
        (SelectQuerySource (VarMapping None []) ''q'' 0 [(1, VarMapping None [])])
      = Inr (2, [\<lparr>kind = DefaultSparqlEndpoint, consumers = [1, 2], observers = []\<rparr>,
                 \<lparr>kind = DefaultVarAllTerms 0, consumers = [2], observers = []\<rparr>,
                 \<lparr>kind = SelectQuerySource (VarMapping None []) ''q'' 0 [(1, VarMapping None [])],
                    consumers = [], observers = []\<rparr>])
   \<and> getDatasetSource
        [\<lparr>kind = DefaultSparqlEndpoint, consumers = [1, 2], observers = []\<rparr>,
         \<lparr>kind = DefaultVarAllTerms 0, consumers = [2], observers = []\<rparr>,
         \<lparr>kind = SelectQuerySource (VarMapping None []) ''q'' 0 [(1, VarMapping None [])],
            consumers = [], observers = []\<rparr>] 1 = Inr (Some 0)
   \<and> getDatasetSource
        [\<lparr>kind = DefaultSparqlEndpoint, consumers = [1, 2], observers = []\<rparr>,
         \<lparr>kind = DefaultVarAllTerms 0, consumers = [2], observers = []\<rparr>,
         \<lparr>kind = SelectQuerySource (VarMapping None []) ''q'' 0 [(1, VarMapping None [])],
            consumers = [], observers = []\<rparr>] 2 = Inr (Some 0)"
proof -
  let ?t = "[\<lparr>kind = TabularSource ''t'', consumers = [], observers = []\<rparr>]"
  let ?h1 = "[\<lparr>kind = DefaultSparqlEndpoint, consumers = [], observers = []\<rparr>]"
  let ?h2 = "[\<lparr>kind = DefaultSparqlEndpoint, consumers = [1], observers = []\<rparr>,
              \<lparr>kind = DefaultVarAllTerms 0, consumers = [], observers = []\<rparr>]"
  let ?sel = "SelectQuerySource (VarMapping None []) ''q'' 0 [(1, VarMapping None [])]"
  let ?h3 = "[\<lparr>kind = DefaultSparqlEndpoint, consumers = [1, 2], observers = []\<rparr>,
              \<lparr>kind = DefaultVarAllTerms 0, consumers = [2], observers = []\<rparr>,
              \<lparr>kind = ?sel, consumers = [], observers = []\<rparr>]"
  have c1: "construct ?h1 (DefaultVarAllTerms 0) = Inr (1, ?h2)"
    by (simp add: alloc_def constructed_def addConsumer_def lookup_def includes_or_push_def)
  have c2: "construct ?h2 ?sel = Inr (2, ?h3)"
    by (simp add: alloc_def constructed_def addConsumer_def lookup_def includes_or_push_def)
  have later: "evolves ?h2 ?h3"
    by (rule evolves_construct [OF evolves_refl c2])
  have now: "evolves ?h3 ?h3"
    by (rule evolves_refl)
  from getDatasetSource_never_throws [of 0 ?t "''t''"]
  have base: "getDatasetSource ?t 0 = Inr None"
    by simp
  from getDatasetSource_never_throws
         [of 0 ?t "''t''" "VarMapping None []" "''q''" 0 "[]" ?h1 1 ?h2 ?h3] c1 later
  have old: "getDatasetSource ?h3 1 = Inr (Some 0)"
    by blast
  from getDatasetSource_never_throws
         [of 0 ?t "''t''" "VarMapping None []" "''q''" 0 "[(1, VarMapping None [])]" ?h2 2 ?h3 ?h3]
       c2 now
  have new: "getDatasetSource ?h3 2 = Inr (Some 0)"
    by blast
  from base c1 c2 old new show ?thesis
    by blast
qed

text \<open>
  C9, as amended. On a closed heap whose consumer edges are acyclic, \<open>isObserved()\<close>
  returns on every node. On a closed heap where a node is transitively its own consumer
  and no node reachable from it through consumer edges has an observer, \<open>isObserved()\<close>
  on that node never returns, whatever the fuel. A node that has an observer returns
  true without visiting its consumers, on a cycle or not.
\<close>

theorem isObserved_terminates_on_dag_diverges_on_unobserved_cycle:
  "(closed_heap s \<and> acyclic (consumer_edges s) \<and> a < length s
      \<longrightarrow> (\<exists>n b. isObserved n s a = Inr b))
   \<and> (closed_heap s \<and> (a, a) \<in> (consumer_edges s)\<^sup>+
       \<and> (\<forall>b. (a, b) \<in> (consumer_edges s)\<^sup>* \<longrightarrow> \<not> observed_directly s b)
      \<longrightarrow> (\<forall>n. isObserved n s a = Inl OutOfFuel))
   \<and> (observed_directly s a \<longrightarrow> (\<forall>n. isObserved (Suc n) s a = Inr True))"
proof (intro conjI impI allI)
  assume "closed_heap s \<and> acyclic (consumer_edges s) \<and> a < length s"
  then show "\<exists>n b. isObserved n s a = Inr b"
    using isObserved_returns_on_dag by blast
next
  fix n
  assume "closed_heap s \<and> (a, a) \<in> (consumer_edges s)\<^sup>+
       \<and> (\<forall>b. (a, b) \<in> (consumer_edges s)\<^sup>* \<longrightarrow> \<not> observed_directly s b)"
  then show "isObserved n s a = Inl OutOfFuel"
    using isObserved_diverges_on_cycle by blast
next
  fix n
  assume o: "observed_directly s a"
  then have "a < length s" by (simp add: observed_directly_def)
  with o show "isObserved (Suc n) s a = Inr True"
    by (simp only: isObserved_Suc_unfold if_True)
qed


theorem isObserved_terminates_on_dag_diverges_on_unobserved_cycle_witness:
  "closed_heap [\<lparr>kind = DefaultSparqlEndpoint, consumers = [1], observers = []\<rparr>,
                \<lparr>kind = DefaultVarAllTerms 0, consumers = [], observers = []\<rparr>]
   \<and> acyclic (consumer_edges
        [\<lparr>kind = DefaultSparqlEndpoint, consumers = [1], observers = []\<rparr>,
         \<lparr>kind = DefaultVarAllTerms 0, consumers = [], observers = []\<rparr>])
   \<and> (\<exists>n b. isObserved n
        [\<lparr>kind = DefaultSparqlEndpoint, consumers = [1], observers = []\<rparr>,
         \<lparr>kind = DefaultVarAllTerms 0, consumers = [], observers = []\<rparr>] 0 = Inr b)
   \<and> closed_heap [\<lparr>kind = DefaultSparqlEndpoint, consumers = [0], observers = []\<rparr>]
   \<and> (0, 0) \<in> (consumer_edges
        [\<lparr>kind = DefaultSparqlEndpoint, consumers = [0], observers = []\<rparr>])\<^sup>+
   \<and> isObserved 3 [\<lparr>kind = DefaultSparqlEndpoint, consumers = [0], observers = []\<rparr>] 0
       = Inl OutOfFuel
   \<and> observed_directly [\<lparr>kind = RDFTerm ''x'', consumers = [0], observers = [NodeObj 0]\<rparr>] 0
   \<and> isObserved 1 [\<lparr>kind = RDFTerm ''x'', consumers = [0], observers = [NodeObj 0]\<rparr>] 0
       = Inr True"
proof -
  let ?dag = "[\<lparr>kind = DefaultSparqlEndpoint, consumers = [1], observers = []\<rparr>,
               \<lparr>kind = DefaultVarAllTerms 0, consumers = [], observers = []\<rparr>]"
  let ?cyc = "[\<lparr>kind = DefaultSparqlEndpoint, consumers = [0], observers = []\<rparr>]"
  let ?obs = "[\<lparr>kind = RDFTerm ''x'', consumers = [0], observers = [NodeObj 0]\<rparr>]"
  have closed_dag: "closed_heap ?dag"
    by (simp add: closed_heap_def All_less_Suc)
  have "consumer_edges ?dag = {(0, 1)}"
    by (auto simp: consumer_edges_def less_Suc_eq)
  moreover have "acyclic ({} :: (ref \<times> ref) set)"
    by (simp add: acyclic_def)
  ultimately have dag: "acyclic (consumer_edges ?dag)"
    by simp
  have closed_cyc: "closed_heap ?cyc"
    by (simp add: closed_heap_def)
  have "(0, 0) \<in> consumer_edges ?cyc"
    by (simp add: consumer_edges_def)
  then have cycle: "(0, 0) \<in> (consumer_edges ?cyc)\<^sup>+"
    by (rule r_into_trancl)
  have quiet: "\<forall>b. (0, b) \<in> (consumer_edges ?cyc)\<^sup>* \<longrightarrow> \<not> observed_directly ?cyc b"
  proof (intro allI impI)
    fix b
    show "\<not> observed_directly ?cyc b"
      by (cases b) (simp_all add: observed_directly_def)
  qed
  have direct: "observed_directly ?obs 0"
    by (simp add: observed_directly_def has_observers_field_def)
  from isObserved_terminates_on_dag_diverges_on_unobserved_cycle [of ?dag 0] closed_dag dag
  have returns: "\<exists>n b. isObserved n ?dag 0 = Inr b"
    by simp
  from isObserved_terminates_on_dag_diverges_on_unobserved_cycle [of ?cyc 0]
    closed_cyc cycle quiet
  have diverges: "isObserved 3 ?cyc 0 = Inl OutOfFuel"
    by blast
  from isObserved_terminates_on_dag_diverges_on_unobserved_cycle [of ?obs 0] direct
  have "isObserved (Suc 0) ?obs 0 = Inr True"
    by blast
  then have short: "isObserved 1 ?obs 0 = Inr True"
    by simp
  from closed_dag dag returns closed_cyc cycle diverges direct short
  show ?thesis by blast
qed

text \<open>
  C9 as stated fails: a program can build an \<open>RDFTerm\<close> that is its own consumer and has
  an observer, and \<open>isObserved()\<close> on it returns true at once.
\<close>

theorem observed_cycle_terminates_counterexample:
  "reachable [\<lparr>kind = RDFTerm ''x'', consumers = [0], observers = [NodeObj 0]\<rparr>]
   \<and> (0, 0) \<in> (consumer_edges
        [\<lparr>kind = RDFTerm ''x'', consumers = [0], observers = [NodeObj 0]\<rparr>])\<^sup>+
   \<and> isObserved 1 [\<lparr>kind = RDFTerm ''x'', consumers = [0], observers = [NodeObj 0]\<rparr>] 0
       = Inr True"
proof -
  let ?h1 = "[\<lparr>kind = RDFTerm ''x'', consumers = [], observers = []\<rparr>]"
  let ?h2 = "[\<lparr>kind = RDFTerm ''x'', consumers = [0], observers = []\<rparr>]"
  let ?h3 = "[\<lparr>kind = RDFTerm ''x'', consumers = [0], observers = [NodeObj 0]\<rparr>]"
  have c1: "construct [] (RDFTerm ''x'') = Inr (0, ?h1)"
    by (simp add: alloc_def)
  have c2: "addConsumer ?h1 0 0 = Inr ?h2"
    by (simp add: addConsumer_def lookup_def includes_or_push_def)
  have c3: "addObserver ?h2 0 (Token 0) = Inr ?h3"
    by (simp add: addObserver_def lookup_def has_observers_field_def includes_or_push_def)
  have r: "reachable ?h3"
    by (rule reachable_addObserver [OF reachable_addConsumer
          [OF reachable_construct [OF reachable_empty c1] c2] c3])
  have "(0, 0) \<in> consumer_edges ?h3"
    by (simp add: consumer_edges_def)
  then have cycle: "(0, 0) \<in> (consumer_edges ?h3)\<^sup>+"
    by (rule r_into_trancl)
  have run: "isObserved 1 ?h3 0 = Inr True"
    by (simp add: lookup_def)
  from r cycle run show ?thesis by blast
qed

text \<open>
  C10. For a node of the term or tabular family whose observer list holds at most one
  element, and nothing but the node itself (a fresh node has an empty list), every finite
  sequence of \<open>addObserver\<close> and \<open>removeObserver\<close> calls with arbitrary tokens returns
  and leaves a list with the same bound: at most one element, and nothing but the node
  itself.
\<close>

theorem observers_at_most_self:
  assumes "a < length s" and "has_observers_field (s ! a)"
    and "length (observers (s ! a)) \<le> 1" and "set (observers (s ! a)) \<subseteq> {NodeObj a}"
  shows "\<exists>s'. observer_calls s a calls = Inr s'
           \<and> length (observers (s' ! a)) \<le> 1 \<and> set (observers (s' ! a)) \<subseteq> {NodeObj a}"
proof -
  from assms(3,4) have "observers (s ! a) = [] \<or> observers (s ! a) = [NodeObj a]"
    using observers_bound_cases [of "observers (s ! a)" "NodeObj a"] by simp
  from observer_calls_bound [OF assms(1,2) this, of calls] show ?thesis
    by (simp add: observers_bound_cases)
qed

theorem observers_at_most_self_witness:
  "observer_calls [\<lparr>kind = RDFTerm ''x'', consumers = [], observers = []\<rparr>] 0
     [AddObserver (Token 1), AddObserver (Token 2), RemoveObserver (Token 1)]
   = Inr [\<lparr>kind = RDFTerm ''x'', consumers = [], observers = [NodeObj 0]\<rparr>]
   \<and> observer_calls [\<lparr>kind = RDFTerm ''x'', consumers = [], observers = []\<rparr>] 0
     [AddObserver (Token 1), RemoveObserver (NodeObj 0)]
   = Inr [\<lparr>kind = RDFTerm ''x'', consumers = [], observers = []\<rparr>]"
  using observers_at_most_self [of 0 "[\<lparr>kind = RDFTerm ''x'', consumers = [], observers = []\<rparr>]"
      "[AddObserver (Token 1), AddObserver (Token 2), RemoveObserver (Token 1)]"]
    observers_at_most_self [of 0 "[\<lparr>kind = RDFTerm ''x'', consumers = [], observers = []\<rparr>]"
      "[AddObserver (Token 1), RemoveObserver (NodeObj 0)]"]
  by (simp add: addObserver_def removeObserver_def lookup_def has_observers_field_def
        includes_or_push_def indexOf_and_splice_remove1)

end
